theory Spec2Isabelle
  imports Complex_Main "HOL-Library.Log_Nat"
begin

section \<open>JavaScript numbers and strings used by gmap.js\<close>

subsection \<open>Double-precision arithmetic\<close>

text \<open>
  JavaScript numbers are IEEE-754 doubles. A finite double is a rational number, and every
  arithmetic operation returns the exact result rounded to the nearest double, ties to the
  even significand. \<open>fl\<close> is that rounding, for the normal range (53-bit significands; no
  overflow to infinity, no subnormals: the values \<open>getIconForPlane\<close> computes from an
  altitude between \<open>-10^23\<close> and \<open>10^300\<close> stay far inside it).

  \<open>ilog2 x\<close> is the binary exponent of a positive rational: \<open>2^(ilog2 x) \<le> x < 2^(ilog2 x + 1)\<close>.
\<close>

definition ilog2 :: "rat \<Rightarrow> int" where
  "ilog2 x = (case quotient_of x of (n, d) \<Rightarrow>
     (let k = bitlen n - bitlen d in if 2 powi k \<le> x then k else k - 1))"

definition round_even :: "rat \<Rightarrow> int" where
  "round_even y = (let f = \<lfloor>y\<rfloor>; r = y - of_int f in
     if r < 1 / 2 then f else if 1 / 2 < r then f + 1 else if even f then f else f + 1)"

definition fl :: "rat \<Rightarrow> rat" where
  "fl x = (if x = 0 then 0 else
     (let e = ilog2 \<bar>x\<bar> - 52
      in sgn x * of_int (round_even (\<bar>x\<bar> / 2 powi e)) * 2 powi e))"

text \<open>
  \<open>parseInt(x)\<close> on a number converts it to a string and reads the leading integer. For
  \<open>x = 0\<close> and for \<open>10^-6 \<le> |x| < 10^21\<close> the string is positional decimal notation and the
  result is \<open>x\<close> truncated towards zero, which is what \<open>parseInt\<close> below returns. Outside that
  range the string is in exponent notation (\<open>parseInt(6.375e21)\<close> is 6); the program reaches
  it only for altitudes below about \<open>-1.5 * 10^23\<close>, and the blue channel passes \<open>2^53\<close> for
  altitudes below about \<open>-1.4 * 10^18\<close>; a theorem about such altitudes carries a bound.
\<close>

definition parseInt :: "rat \<Rightarrow> int" where
  "parseInt p = (if 0 \<le> p then \<lfloor>p\<rfloor> else \<lceil>p\<rceil>)"

text \<open>
  The JSON document gives an altitude as an integer. \<open>JSON.parse\<close> makes of it the nearest
  double (the integer itself up to \<open>2^53\<close>), and that double is what the script reads as
  \<open>plane.altitude\<close>.
\<close>

definition as_double :: "int \<Rightarrow> rat" where
  "as_double i = fl (of_int i)"

subsection \<open>Strings\<close>

text \<open>
  Strings are lists of characters; a \<open>char\<close> stands for a code unit below 256. Integers
  print in decimal, as JavaScript prints an integer-valued number below \<open>2^53\<close> (a larger
  one it prints with its shortest digits that read back as the same double).
\<close>

fun nat_str :: "nat \<Rightarrow> string" where
  "nat_str n = (if n < 10 then [''0123456789'' ! n]
                else nat_str (n div 10) @ [''0123456789'' ! (n mod 10)])"

declare nat_str.simps [simp del]

definition int_str :: "int \<Rightarrow> string" where
  "int_str i = (if i < 0 then CHR ''-'' # nat_str (nat (- i)) else nat_str (nat i))"

text \<open>
  Modelled from the spec: \<open>$.trim\<close> belongs to jQuery, which is not part of the repository.
  The spec says the callsign is "whitespace-trimmed by the client"; jQuery removes the
  whitespace at both ends of the string and leaves the inside alone. The whitespace
  characters below 256 are tab, line feed, vertical tab, form feed, carriage return, space
  and the no-break space.
\<close>

definition is_space :: "char \<Rightarrow> bool" where
  "is_space c = (c \<in> set [CHR 0x09, CHR 0x0A, CHR 0x0B, CHR 0x0C, CHR 0x0D, CHR 0x20, CHR 0xA0])"

definition trim :: "string \<Rightarrow> string" where
  "trim s = rev (dropWhile is_space (rev (dropWhile is_space s)))"

section \<open>Data model\<close>

text \<open>
  One element of \<open>data.aircrafts\<close>, as the JSON document gives it. Altitudes are whole feet
  (\<open>int\<close>, read through \<open>as_double\<close>); the other numbers are only stored and printed, never
  computed with. The globals \<open>Map\<close>, \<open>CenterLat\<close> and \<open>CenterLon\<close> and the function
  \<open>initialize\<close>, which creates the map and starts the timer, are outside the model.
\<close>

record aircraft =
  icao :: string
  flight :: string
  latitude :: rat
  longitude :: rat
  altitude :: int
  speed :: rat
  track :: rat

text \<open>
  An entry of \<open>Planes\<close> is the JSON object itself with the properties the client adds to
  it: \<open>marker\<close> when the entry is created (line 89), \<open>lat\<close> and \<open>lon\<close> when it is updated
  (lines 77-78). A property that was never assigned reads as \<open>undefined\<close>, here \<open>None\<close>.
  \<open>marker\<close> is the address of the marker object in the store \<open>markers\<close> of the state.
\<close>

record plane = aircraft +
  lat :: "rat option"
  lon :: "rat option"
  marker :: nat

datatype symbol_path = FORWARD_CLOSED_ARROW

record icon =
  strokeWeight :: nat
  path :: symbol_path
  scale :: nat
  fillColor :: string
  fillOpacity :: rat
  rotation :: rat

text \<open>
  A marker of the mapping widget: the properties the client sets or reads. \<open>onMap\<close> is
  the \<open>map\<close> property: \<open>True\<close> for the one map \<open>Map\<close>, \<open>False\<close> after \<open>setMap(null)\<close>.
  \<open>title\<close> is \<open>None\<close> until \<open>setTitle\<close> is called.
\<close>

record marker_obj =
  position :: "rat \<times> rat"
  icon :: icon
  title :: "string option"
  onMap :: bool
  planehex :: string

text \<open>
  The globals of the script, the marker objects it has created (a marker's address is its
  index; markers are never freed, only taken off the map) and the two panels it writes.
  \<open>Planes\<close> is a JavaScript object used as a dictionary: the association list of its own
  properties in insertion order, with lookup \<open>map_of\<close>. What \<open>Planes[x]\<close> gives for a name
  that is not an own property is said with \<open>inherited\<close> below.
\<close>

record state =
  Planes :: "(string \<times> plane) list"
  NumPlanes :: nat
  Selected :: "string option"
  markers :: "marker_obj list"
  geninfo :: string
  selinfo :: string

definition init :: state where
  "init = \<lparr>Planes = [], NumPlanes = 0, Selected = None, markers = [],
           geninfo = '''', selinfo = ''''\<rparr>"

section \<open>The functions of gmap.js\<close>

subsection \<open>getIconForPlane (lines 8-24)\<close>

text \<open>Lines 10-15: the blue channel \<open>b\<close> from the altitude.\<close>

definition blue_channel :: "int \<Rightarrow> int" where
  "blue_channel alt =
     (let maxalt = 40000;
          invalt = fl (maxalt - as_double alt);
          invalt = (if invalt < 0 then 0 else invalt)
      in parseInt (fl (fl (255 / maxalt) * invalt)))"

definition getIconForPlane :: "state \<Rightarrow> 'a aircraft_scheme \<Rightarrow> icon" where
  "getIconForPlane st plane =
     (let r = 255; g = 255;
          b = blue_channel (altitude plane);
          selected = (Selected st = Some (icao plane))
      in \<lparr>strokeWeight = (if selected then 2 else 1),
          path = FORWARD_CLOSED_ARROW,
          scale = 5,
          fillColor = ''rgb('' @ int_str r @ '','' @ int_str g @ '','' @ int_str b @ '')'',
          fillOpacity = 9 / 10,
          rotation = track plane\<rparr>)"

subsection \<open>Property access and marker methods\<close>

text \<open>
  \<open>Planes[x]\<close> converts \<open>x\<close> to a property name: the value \<open>null\<close> of \<open>Selected\<close> reads the
  property named \<open>null\<close>.
\<close>

definition prop_key :: "string option \<Rightarrow> string" where
  "prop_key v = (case v of None \<Rightarrow> ''null'' | Some k \<Rightarrow> k)"

text \<open>
  \<open>Planes\<close> and \<open>stillhere\<close> are plain objects (\<open>{}\<close>), so \<open>Planes[x]\<close> and \<open>stillhere[x]\<close>
  also find the properties that every object inherits from \<open>Object.prototype\<close>: the names of
  the ECMAScript standard and of its annex for browsers. Each of them holds a function (or,
  for \<open>__proto__\<close>, the prototype object): a value that counts as true in a condition and
  that has no property \<open>marker\<close>. An own property of the same name would come first.
\<close>

definition inherited_names :: "string list" where
  "inherited_names =
     [''constructor'', ''toString'', ''toLocaleString'', ''valueOf'', ''hasOwnProperty'',
      ''isPrototypeOf'', ''propertyIsEnumerable'', ''__proto__'', ''__defineGetter__'',
      ''__defineSetter__'', ''__lookupGetter__'', ''__lookupSetter__'']"

definition inherited :: "string \<Rightarrow> bool" where
  "inherited x = (x \<in> set inherited_names)"

text \<open>Calling a method of \<open>undefined\<close> throws a \<open>TypeError\<close>.\<close>

datatype error = TypeError

text \<open>
  Numbers that come from the JSON document are printed by JavaScript's number-to-string
  conversion, a parameter \<open>ns\<close> of the functions that print; \<open>undefined\<close> prints as such.
\<close>

definition num_or_undefined :: "(rat \<Rightarrow> string) \<Rightarrow> rat option \<Rightarrow> string" where
  "num_or_undefined ns v = (case v of None \<Rightarrow> ''undefined'' | Some x \<Rightarrow> ns x)"

definition upd_marker :: "nat \<Rightarrow> (marker_obj \<Rightarrow> marker_obj) \<Rightarrow> state \<Rightarrow> state" where
  "upd_marker m f st = st\<lparr>markers := (markers st)[m := f (markers st ! m)]\<rparr>"

definition setIcon :: "nat \<Rightarrow> icon \<Rightarrow> state \<Rightarrow> state" where
  "setIcon m i = upd_marker m (\<lambda>mk. mk\<lparr>icon := i\<rparr>)"

definition setPosition :: "nat \<Rightarrow> rat \<times> rat \<Rightarrow> state \<Rightarrow> state" where
  "setPosition m pos = upd_marker m (\<lambda>mk. mk\<lparr>position := pos\<rparr>)"

definition setTitle :: "nat \<Rightarrow> string \<Rightarrow> state \<Rightarrow> state" where
  "setTitle m t = upd_marker m (\<lambda>mk. mk\<lparr>title := Some t\<rparr>)"

definition setMap_null :: "nat \<Rightarrow> state \<Rightarrow> state" where
  "setMap_null m = upd_marker m (\<lambda>mk. mk\<lparr>onMap := False\<rparr>)"

text \<open>Assigning to properties of the object stored under a key of \<open>Planes\<close>.\<close>

definition upd_plane ::
  "string \<Rightarrow> (plane \<Rightarrow> plane) \<Rightarrow> (string \<times> plane) list \<Rightarrow> (string \<times> plane) list" where
  "upd_plane k f ps = map (\<lambda>(k', p). if k' = k then (k', f p) else (k', p)) ps"

subsection \<open>refreshGeneralInfo (lines 38-42) and refreshSelectedInfo (lines 44-57)\<close>

definition refreshGeneralInfo :: "state \<Rightarrow> state" where
  "refreshGeneralInfo st = st\<lparr>geninfo := nat_str (NumPlanes st) @ '' planes on screen.''\<rparr>"

definition refreshSelectedInfo :: "(rat \<Rightarrow> string) \<Rightarrow> state \<Rightarrow> state" where
  "refreshSelectedInfo ns st =
     (case map_of (Planes st) (prop_key (Selected st)) of
        None \<Rightarrow> st
      | Some p \<Rightarrow>
          st\<lparr>selinfo :=
            ''ICAO: '' @ icao p @ ''<br>''
            @ (if flight p \<noteq> [] then ''<b>'' @ flight p @ ''</b><br>'' else [])
            @ ''Altitude: '' @ ns (as_double (altitude p)) @ '' feet<br>''
            @ ''Speed: '' @ ns (speed p) @ '' knots<br>''
            @ ''Coordinates: '' @ num_or_undefined ns (lat p) @ '', ''
                @ num_or_undefined ns (lon p) @ ''<br>''\<rparr>)"

subsection \<open>selectPlane (lines 26-36)\<close>

text \<open>
  The click listener of a marker; \<open>this\<close> is the marker and \<open>selectPlane\<close> reads only its
  \<open>planehex\<close>, the argument here. Between the guard of line 27 and line 34 nothing assigns
  to \<open>Planes\<close>, so \<open>Planes[Selected]\<close> of line 34 is the entry the guard found.
  The names that \<open>selectPlane\<close> and \<open>refreshSelectedInfo\<close> look up in \<open>Planes\<close> are the
  \<open>planehex\<close> of a marker, the value of \<open>Selected\<close> and the name \<open>null\<close>. Line 90 gives a
  marker its \<open>planehex\<close> in the branch that line 68 takes only for a name that is not
  inherited, and \<open>Selected\<close> gets its value from a \<open>planehex\<close>: these lookups find an own
  property or nothing (\<open>names_ok\<close> below, which holds in every state the page reaches).
\<close>

definition selectPlane :: "(rat \<Rightarrow> string) \<Rightarrow> string \<Rightarrow> state \<Rightarrow> state" where
  "selectPlane ns hex st =
     (case map_of (Planes st) hex of
        None \<Rightarrow> st
      | Some p \<Rightarrow>
          (let old = Selected st;
               st1 = st\<lparr>Selected := Some hex\<rparr>;
               st2 = (case map_of (Planes st1) (prop_key old) of
                        None \<Rightarrow> st1
                      | Some po \<Rightarrow> setIcon (marker po) (getIconForPlane st1 po) st1);
               st3 = setIcon (marker p) (getIconForPlane st2 p) st2
           in refreshSelectedInfo ns st3))"

definition click :: "(rat \<Rightarrow> string) \<Rightarrow> nat \<Rightarrow> state \<Rightarrow> state" where
  "click ns m st = selectPlane ns (planehex (markers st ! m)) st"

subsection \<open>fetchData (lines 59-111)\<close>

text \<open>
  One iteration of the loop of lines 62-100 that runs to its end, on the loop's variable
  \<open>stillhere\<close> and the state: \<open>Planes[plane.icao]\<close> of line 68 is an own property (the update
  branch) or nothing at all (the branch that creates the entry). The JSON object \<open>plane\<close>
  gets its \<open>flight\<close> trimmed first (line 66).
\<close>

definition fetch_step ::
  "(rat \<Rightarrow> string) \<Rightarrow> aircraft \<Rightarrow> string set \<times> state \<Rightarrow> string set \<times> state" where
  "fetch_step ns plane0 acc =
     (case acc of (stillhere, st) \<Rightarrow>
       (let plane = plane0\<lparr>flight := trim (flight plane0)\<rparr>;
            text = (if flight plane = [] then icao plane
                    else flight plane @ '' ('' @ icao plane @ '')'')
        in case map_of (Planes st) (icao plane) of
             Some myplane \<Rightarrow>
               (let m = marker myplane;
                    st1 = setPosition m (latitude plane, longitude plane) st;
                    st2 = setIcon m (getIconForPlane st1 plane) st1;
                    st3 = st2\<lparr>Planes := upd_plane (icao plane)
                            (\<lambda>p. p\<lparr>altitude := altitude plane, speed := speed plane,
                                    lat := Some (latitude plane), lon := Some (longitude plane),
                                    track := track plane, flight := flight plane\<rparr>)
                            (Planes st2)\<rparr>;
                    st4 = (if Some (icao myplane) = Selected st3
                           then refreshSelectedInfo ns st3 else st3)
                in (insert (icao plane) stillhere, setTitle m text st4))
           | None \<Rightarrow>
               (let m = length (markers st);
                    mk = \<lparr>position = (latitude plane, longitude plane),
                          icon = getIconForPlane st plane, title = None, onMap = True,
                          planehex = icao plane\<rparr>;
                    st1 = st\<lparr>markers := markers st @ [mk]\<rparr>;
                    entry = \<lparr>icao = icao plane, flight = flight plane,
                             latitude = latitude plane, longitude = longitude plane,
                             altitude = altitude plane, speed = speed plane,
                             track = track plane, lat = None, lon = None, marker = m\<rparr>;
                    st2 = st1\<lparr>Planes := Planes st1 @ [(icao plane, entry)]\<rparr>
                in (insert (icao plane) stillhere, setTitle m text st2))))"

text \<open>
  One iteration of the loop of lines 62-100, with every outcome of line 68. When \<open>Planes\<close>
  has no own property \<open>plane.icao\<close> but inherits one, the condition of line 68 is true,
  \<open>myplane\<close> is the inherited value, \<open>marker\<close> of line 70 is \<open>undefined\<close> and
  \<open>marker.getIcon()\<close> of line 71 throws. Up to there the iteration has assigned only to
  \<open>stillhere\<close> and to the JSON object, both local to the callback: the state is the one
  before the iteration.
\<close>

definition fetch_plane ::
  "(rat \<Rightarrow> string) \<Rightarrow> aircraft \<Rightarrow> string set \<times> state \<Rightarrow> error + string set \<times> state" where
  "fetch_plane ns plane0 acc =
     (case acc of (stillhere, st) \<Rightarrow>
        if map_of (Planes st) (icao plane0) = None \<and> inherited (icao plane0)
        then Inl TypeError
        else Inr (fetch_step ns plane0 acc))"

text \<open>
  The loop of lines 62-100: it stops at the first iteration that throws, with what the
  iterations before it have done.
\<close>

fun fetch_loop ::
  "(rat \<Rightarrow> string) \<Rightarrow> aircraft list \<Rightarrow> string set \<times> state
     \<Rightarrow> error option \<times> string set \<times> state" where
  "fetch_loop ns [] acc = (None, acc)"
| "fetch_loop ns (plane # rest) acc =
     (case fetch_plane ns plane acc of
        Inl e \<Rightarrow> (Some e, acc)
      | Inr acc' \<Rightarrow> fetch_loop ns rest acc')"

text \<open>
  One iteration of the loop of lines 104-109, for the key \<open>p\<close>. The loop visits the keys
  that \<open>Planes\<close> has when it starts and deletes only the key it is visiting.
  \<open>stillhere[p]\<close> is true for a name the loop above has stored and for an inherited name.
\<close>

definition remove_idle :: "string set \<Rightarrow> string \<Rightarrow> state \<Rightarrow> state" where
  "remove_idle stillhere p st =
     (if p \<in> stillhere \<or> inherited p then st
      else case map_of (Planes st) p of
             None \<Rightarrow> st
           | Some e \<Rightarrow> (setMap_null (marker e) st)
                        \<lparr>Planes := filter (\<lambda>(k, _). k \<noteq> p) (Planes st)\<rparr>)"

text \<open>
  The callback that \<open>$.getJSON\<close> calls with the parsed document, on \<open>data.aircrafts\<close>:
  whether it threw, and the state it leaves. An exception of the first loop ends the
  callback: lines 101-109 do not run. When the request fails the callback never runs and
  the state stays as it is.
\<close>

definition fetchData_outcome ::
  "(rat \<Rightarrow> string) \<Rightarrow> aircraft list \<Rightarrow> state \<Rightarrow> error option \<times> state" where
  "fetchData_outcome ns aircrafts st =
     (case fetch_loop ns aircrafts ({}, st) of
        (Some e, stillhere, st1) \<Rightarrow> (Some e, st1)
      | (None, stillhere, st1) \<Rightarrow>
          (let st2 = st1\<lparr>NumPlanes := length aircrafts\<rparr>
           in (None, fold (remove_idle stillhere) (map fst (Planes st2)) st2)))"

text \<open>The state that the callback leaves, whether it ran to its end or threw.\<close>

definition fetchData :: "(rat \<Rightarrow> string) \<Rightarrow> aircraft list \<Rightarrow> state \<Rightarrow> state" where
  "fetchData ns aircrafts st = snd (fetchData_outcome ns aircrafts st)"

section \<open>Invariants of the state\<close>

text \<open>
  What the script keeps true of its state: every key of \<open>Planes\<close> occurs once and holds the
  object whose \<open>icao\<close> is that key; the \<open>marker\<close> of an entry is a marker that exists, and no
  two entries share one. \<open>icons_ok\<close> says that the icon each marker shows is the one
  \<open>getIconForPlane\<close> computes from its entry now.
\<close>

definition planes_ok :: "state \<Rightarrow> bool" where
  "planes_ok st \<longleftrightarrow>
     distinct (map fst (Planes st)) \<and>
     distinct (map (\<lambda>e. marker (snd e)) (Planes st)) \<and>
     (\<forall>e \<in> set (Planes st). icao (snd e) = fst e \<and> marker (snd e) < length (markers st))"

definition icons_ok :: "state \<Rightarrow> bool" where
  "icons_ok st \<longleftrightarrow>
     (\<forall>e \<in> set (Planes st). icon (markers st ! marker (snd e)) = getIconForPlane st (snd e))"

text \<open>
  No name in use is an inherited one: no key of \<open>Planes\<close>, no \<open>planehex\<close> of a marker, and
  not the selection.
\<close>

definition names_ok :: "state \<Rightarrow> bool" where
  "names_ok st \<longleftrightarrow>
     (\<forall>e \<in> set (Planes st). \<not> inherited (fst e)) \<and>
     (\<forall>m \<in> set (markers st). \<not> inherited (planehex m)) \<and>
     (case Selected st of None \<Rightarrow> True | Some k \<Rightarrow> \<not> inherited k)"

text \<open>
  A selection that is set names a key of \<open>Planes\<close>. (The script does not keep this true:
  see the claims about the selection.)
\<close>

definition sel_ok :: "state \<Rightarrow> bool" where
  "sel_ok st \<longleftrightarrow> (case Selected st of None \<Rightarrow> True | Some k \<Rightarrow> map_of (Planes st) k \<noteq> None)"

text \<open>
  The states the page can be in: the script starts in \<open>init\<close>; then the callback of a
  successful request, a click on a marker and the refresh of the summary panel run one at
  a time, in any order (the event loop runs a handler to its end before the next).
\<close>

inductive reachable :: "(rat \<Rightarrow> string) \<Rightarrow> state \<Rightarrow> bool" for ns :: "rat \<Rightarrow> string" where
  start: "reachable ns init"
| fetched: "reachable ns st \<Longrightarrow> reachable ns (fetchData ns aircrafts st)"
| clicked: "reachable ns st \<Longrightarrow> m < length (markers st) \<Longrightarrow> reachable ns (click ns m st)"
| summary: "reachable ns st \<Longrightarrow> reachable ns (refreshGeneralInfo st)"

section \<open>Notions used to state the properties\<close>

text \<open>
  The title that lines 96-99 give the marker of an aircraft of the snapshot; the entry that
  lines 75-80 leave when they refresh an entry \<open>p\<close> from that aircraft; the entry that
  lines 89-91 store for an aircraft seen for the first time, with marker \<open>m\<close>.
\<close>

definition label :: "aircraft \<Rightarrow> string" where
  "label x = (if trim (flight x) = [] then icao x else trim (flight x) @ '' ('' @ icao x @ '')'')"

definition refreshed :: "aircraft \<Rightarrow> plane \<Rightarrow> plane" where
  "refreshed x p = p\<lparr>altitude := altitude x, speed := speed x, lat := Some (latitude x),
     lon := Some (longitude x), track := track x, flight := trim (flight x)\<rparr>"

definition created :: "aircraft \<Rightarrow> nat \<Rightarrow> plane" where
  "created x m = \<lparr>icao = icao x, flight = trim (flight x), latitude = latitude x,
     longitude = longitude x, altitude = altitude x, speed = speed x, track = track x,
     lat = None, lon = None, marker = m\<rparr>"

text \<open>
  \<open>faded a b\<close>: marker \<open>b\<close> is marker \<open>a\<close>, possibly taken off the map. \<open>latest k xs\<close> is the
  last aircraft of the snapshot \<open>xs\<close> with identity \<open>k\<close>: the one whose values the loop leaves
  in the entry (the only one when the identities of a snapshot are distinct).
\<close>

definition faded :: "marker_obj \<Rightarrow> marker_obj \<Rightarrow> bool" where
  "faded a b \<longleftrightarrow> b = a \<or> b = a\<lparr>onMap := False\<rparr>"

definition latest :: "string \<Rightarrow> aircraft list \<Rightarrow> aircraft" where
  "latest k xs = last (filter (\<lambda>y. icao y = k) xs)"

text \<open>
  A snapshot none of whose identities is an inherited name: on such a snapshot no iteration
  of the first loop throws.
\<close>

definition clean :: "aircraft list \<Rightarrow> bool" where
  "clean xs \<longleftrightarrow> (\<forall>x \<in> set xs. \<not> inherited (icao x))"

section \<open>Example data\<close>

text \<open>
  The aircraft of the end-to-end scenarios: \<open>A1\<close> at (10, 20) with speed 100 and track 90,
  at a given altitude and with a given callsign, and \<open>B2\<close>.
\<close>

definition A1 :: "string \<Rightarrow> int \<Rightarrow> aircraft" where
  "A1 callsign alt = \<lparr>icao = ''A1'', flight = callsign, latitude = 10, longitude = 20,
                       altitude = alt, speed = 100, track = 90\<rparr>"

definition B2 :: aircraft where
  "B2 = \<lparr>icao = ''B2'', flight = ''UAL123 '', latitude = 30, longitude = 40,
          altitude = 20000, speed = 250, track = 180\<rparr>"

text \<open>An aircraft whose identity is the name of a property that every object inherits.\<close>

definition ctor :: aircraft where
  "ctor = \<lparr>icao = ''constructor'', flight = ''UAL123 '', latitude = 50, longitude = 60,
            altitude = 10000, speed = 300, track = 270\<rparr>"

text \<open>
  A number printer for the examples: it prints whole numbers in decimal, as JavaScript does.
  \<open>scene1\<close> is the state after the first snapshot of the scenario, \<open>scene2\<close> the state after
  a second snapshot with \<open>A1\<close> at altitude 40000 and the new aircraft \<open>B2\<close>.
\<close>

definition ns_int :: "rat \<Rightarrow> string" where
  "ns_int r = int_str \<lfloor>r\<rfloor>"

definition scene1 :: state where
  "scene1 = fetchData ns_int [A1 '''' 0] init"

definition scene2 :: state where
  "scene2 = fetchData ns_int [A1 ''UAL123 '' 40000, B2] scene1"

text \<open>The same two states after a click on the marker of \<open>A1\<close>.\<close>

definition scene1_sel :: state where
  "scene1_sel = selectPlane ns_int ''A1'' scene1"

definition scene2_sel :: state where
  "scene2_sel = selectPlane ns_int ''A1'' scene2"

section \<open>Rounding lemmas\<close>

lemma round_even_of_int: "round_even (of_int m) = m"
  by (simp add: round_even_def)

lemma round_even_ge_floor: "\<lfloor>y\<rfloor> \<le> round_even y"
  by (simp add: round_even_def Let_def)

lemma ilog2_bounds:
  assumes "0 < x"
  shows "2 powi (ilog2 x) \<le> x \<and> x < 2 powi (ilog2 x + 1)"
proof -
  obtain n d where q: "quotient_of x = (n, d)" by (cases "quotient_of x")
  then have d: "0 < d" and x: "x = of_int n / of_int d"
    using quotient_of_denom_pos quotient_of_div by auto
  from assms x d have n: "0 < n"
    by (simp add: zero_less_divide_iff)
  define bn where "bn = bitlen n"
  define bd where "bd = bitlen d"
  have bn: "2 ^ nat (bn - 1) \<le> n" "n < 2 ^ nat bn" using bitlen_bounds[OF n] by (auto simp: bn_def)
  have bd: "2 ^ nat (bd - 1) \<le> d" "d < 2 ^ nat bd" using bitlen_bounds[OF d] by (auto simp: bd_def)
  have bn1: "1 \<le> bn" using n by (auto simp: bn_def bitlen_alt_def)
  have bd1: "1 \<le> bd" using d by (auto simp: bd_def bitlen_alt_def)
  have n1: "(2::rat) powi (bn - 1) \<le> of_int n"
  proof -
    have "(of_int (2 ^ nat (bn - 1)) :: rat) \<le> of_int n" using bn(1) by (rule of_int_le_iff[THEN iffD2])
    then show ?thesis using bn1 by (simp add: power_int_def)
  qed
  have n2: "of_int n < (2::rat) powi bn"
  proof -
    have "(of_int n :: rat) < of_int (2 ^ nat bn)" using bn(2) by (rule of_int_less_iff[THEN iffD2])
    then show ?thesis using bn1 by (simp add: power_int_def)
  qed
  have d1: "(2::rat) powi (bd - 1) \<le> of_int d"
  proof -
    have "(of_int (2 ^ nat (bd - 1)) :: rat) \<le> of_int d" using bd(1) by (rule of_int_le_iff[THEN iffD2])
    then show ?thesis using bd1 by (simp add: power_int_def)
  qed
  have d2: "of_int d < (2::rat) powi bd"
  proof -
    have "(of_int d :: rat) < of_int (2 ^ nat bd)" using bd(2) by (rule of_int_less_iff[THEN iffD2])
    then show ?thesis using bd1 by (simp add: power_int_def)
  qed
  have dpos: "(0::rat) < of_int d" using d by simp
  have up: "x < 2 powi (bn - bd + 1)"
  proof -
    have "of_int n < (2::rat) powi (bn - bd + 1) * 2 powi (bd - 1)"
      using n2 by (simp add: power_int_add[symmetric])
    also have "\<dots> \<le> 2 powi (bn - bd + 1) * of_int d"
      using d1 by (simp add: mult_left_mono)
    finally show ?thesis using dpos by (simp add: x pos_divide_less_eq)
  qed
  have lo: "2 powi (bn - bd - 1) \<le> x"
  proof -
    have "(2::rat) powi (bn - bd - 1) * of_int d \<le> 2 powi (bn - bd - 1) * 2 powi bd"
      using d2 by (simp add: mult_left_mono)
    also have "\<dots> = 2 powi (bn - 1)" by (simp add: power_int_add[symmetric])
    also have "\<dots> \<le> of_int n" by (rule n1)
    finally show ?thesis using dpos by (simp add: x pos_le_divide_eq)
  qed
  show ?thesis
    using up lo q by (auto simp: ilog2_def Let_def bn_def bd_def not_le)
qed

lemma ilog2_ge: "0 < x \<Longrightarrow> 2 powi k \<le> x \<Longrightarrow> k \<le> ilog2 x"
proof (rule ccontr)
  assume x: "0 < x" and k: "2 powi k \<le> x" and n: "\<not> k \<le> ilog2 x"
  then have "ilog2 x + 1 \<le> k" by simp
  then have "(2::rat) powi (ilog2 x + 1) \<le> 2 powi k"
    by (intro power_int_increasing) auto
  with ilog2_bounds[OF x] k show False by simp
qed

lemma ilog2_less: "0 < x \<Longrightarrow> x < 2 powi k \<Longrightarrow> ilog2 x < k"
proof (rule ccontr)
  assume x: "0 < x" and k: "x < 2 powi k" and n: "\<not> ilog2 x < k"
  then have "(2::rat) powi k \<le> 2 powi (ilog2 x)"
    by (intro power_int_increasing) auto
  with ilog2_bounds[OF x] k show False by simp
qed

lemma pow2_split: "(2::rat) powi j = 2 ^ 52 * 2 powi (j - 52)"
  using power_int_add[of "2::rat" 52 "j - 52"] by simp

lemma fl_pos_eq:
  "0 < x \<Longrightarrow> fl x = of_int (round_even (x / 2 powi (ilog2 x - 52))) * 2 powi (ilog2 x - 52)"
  by (simp add: fl_def Let_def)

lemma fl_mantissa_ge:
  assumes "0 < x"
  shows "2 ^ 52 \<le> round_even (x / 2 powi (ilog2 x - 52))"
proof -
  have "(2::rat) ^ 52 * 2 powi (ilog2 x - 52) \<le> x"
    using ilog2_bounds[OF assms] pow2_split[of "ilog2 x"] by simp
  then have "(2::rat) ^ 52 \<le> x / 2 powi (ilog2 x - 52)"
    by (simp add: pos_le_divide_eq)
  then have "(2::int) ^ 52 \<le> \<lfloor>x / 2 powi (ilog2 x - 52)\<rfloor>"
    by (simp add: le_floor_iff)
  then show ?thesis using round_even_ge_floor order_trans by blast
qed

lemma fl_ge_pow2:
  assumes "2 powi k \<le> x"
  shows "2 powi k \<le> fl x"
proof -
  have x: "0 < x" using assms using zero_less_power_int[of "2::rat" k] by linarith
  have "(2::rat) powi k \<le> 2 powi (ilog2 x)"
    using ilog2_ge[OF x assms] by (intro power_int_increasing) auto
  also have "\<dots> = 2 ^ 52 * 2 powi (ilog2 x - 52)"
    by (rule pow2_split)
  also have "\<dots> \<le> of_int (round_even (x / 2 powi (ilog2 x - 52))) * 2 powi (ilog2 x - 52)"
  proof (rule mult_right_mono)
    have "(of_int (2 ^ 52) :: rat) \<le> of_int (round_even (x / 2 powi (ilog2 x - 52)))"
      using fl_mantissa_ge[OF x] by (rule of_int_le_iff[THEN iffD2])
    then show "(2::rat) ^ 52 \<le> of_int (round_even (x / 2 powi (ilog2 x - 52)))" by simp
  qed simp
  finally show ?thesis by (simp add: fl_pos_eq[OF x])
qed

lemma fl_neg: 
  assumes "x < 0" shows "fl x < 0"
proof -
  have a: "0 < \<bar>x\<bar>" using assms by simp
  have "0 < round_even (\<bar>x\<bar> / 2 powi (ilog2 \<bar>x\<bar> - 52))"
    using fl_mantissa_ge[OF a] by (smt (verit) zero_less_power)
  then have "(0::rat) < of_int (round_even (\<bar>x\<bar> / 2 powi (ilog2 \<bar>x\<bar> - 52))) * 2 powi (ilog2 \<bar>x\<bar> - 52)"
    by (simp add: zero_less_mult_iff)
  then show ?thesis using assms by (simp add: fl_def Let_def mult_less_0_iff zero_less_mult_iff)
qed

lemma fl_of_int:
  assumes "0 < n" "n < 2 ^ 53"
  shows "fl (of_int n) = of_int n"
proof -
  define x :: rat where "x = of_int n"
  have x: "0 < x" using assms by (simp add: x_def)
  have "x < 2 powi 53" using assms(2) unfolding x_def
    by (metis of_int_less_iff of_int_numeral of_int_power power_int_numeral)
  then have "ilog2 x < 53" using ilog2_less[OF x] by simp
  define j where "j = nat (52 - ilog2 x)"
  have j: "ilog2 x - 52 = - int j" using \<open>ilog2 x < 53\<close> by (simp add: j_def)
  have pj: "(2::rat) powi (ilog2 x - 52) = 1 / 2 ^ j"
    unfolding j by (simp add: power_int_minus field_simps)
  have "x / 2 powi (ilog2 x - 52) = of_int (n * 2 ^ j)"
    unfolding pj by (simp add: x_def)
  then have "round_even (x / 2 powi (ilog2 x - 52)) = n * 2 ^ j"
    by (simp only: round_even_of_int)
  then have "fl x = of_int (n * 2 ^ j) * (1 / 2 ^ j)"
    using fl_pos_eq[OF x] pj by simp
  also have "\<dots> = x" by (simp add: x_def)
  finally show ?thesis by (simp add: x_def)
qed

lemma fl_minus: "fl (- x) = - fl x"
  by (simp add: fl_def Let_def sgn_minus)

lemma round_even_near: "\<bar>of_int (round_even y) - y\<bar> \<le> 1 / 2"
proof -
  have "of_int \<lfloor>y\<rfloor> \<le> y" "y < of_int \<lfloor>y\<rfloor> + 1" by linarith+
  then show ?thesis by (auto simp: round_even_def Let_def abs_le_iff)
qed

lemma ilog2_eq: "2 powi k \<le> x \<Longrightarrow> x < 2 powi (k + 1) \<Longrightarrow> ilog2 x = k"
proof -
  assume lo: "2 powi k \<le> x" and hi: "x < 2 powi (k + 1)"
  have x: "0 < x" using lo zero_less_power_int[of "2::rat" k] by linarith
  show ?thesis using ilog2_ge[OF x lo] ilog2_less[OF x hi] by simp
qed

text \<open>The rounding error is at most half a unit in the last place.\<close>

lemma fl_near:
  assumes "2 powi k \<le> x" "x < 2 powi (k + 1)"
  shows "\<bar>fl x - x\<bar> \<le> 2 powi (k - 53)"
proof -
  have x: "0 < x" using assms(1) zero_less_power_int[of "2::rat" k] by linarith
  define u :: rat where "u = 2 powi (k - 52)"
  have u: "0 < u" by (simp add: u_def)
  have half: "u / 2 = 2 powi (k - 53)"
    using power_int_add[of "2::rat" "k - 53" 1] by (simp add: u_def)
  have "fl x = of_int (round_even (x / u)) * u"
    using fl_pos_eq[OF x] ilog2_eq[OF assms] by (simp add: u_def)
  then have "fl x - x = (of_int (round_even (x / u)) - x / u) * u"
    using u by (simp add: field_simps)
  then have "\<bar>fl x - x\<bar> = \<bar>of_int (round_even (x / u)) - x / u\<bar> * u"
    using u by (simp add: abs_mult)
  also have "\<dots> \<le> 1 / 2 * u"
    using round_even_near[of "x / u"] u by (intro mult_right_mono) auto
  finally show ?thesis using half by simp
qed

lemma as_double_exact:
  assumes "\<bar>n\<bar> < 2 ^ 53"
  shows "as_double n = of_int n"
proof -
  consider "n = 0" | "0 < n" | "n < 0" by linarith
  then show ?thesis
  proof cases
    case 1
    then show ?thesis by (simp add: as_double_def fl_def)
  next
    case 2
    then show ?thesis using assms by (simp add: as_double_def fl_of_int)
  next
    case 3
    then have "fl (of_int (- n)) = of_int (- n)" using assms by (intro fl_of_int) auto
    then show ?thesis using fl_minus[of "of_int n"] by (simp add: as_double_def)
  qed
qed

lemma as_double_below:
  assumes "n \<le> - 157"
  shows "as_double n \<le> - 157"
proof (cases "- n < 2 ^ 53")
  case True
  then have "as_double n = of_int n" using assms by (intro as_double_exact) auto
  then show ?thesis using assms by simp
next
  case False
  then have "(2::rat) powi 53 \<le> of_int (- n)"
    by (metis not_less of_int_le_iff of_int_numeral of_int_power power_int_numeral)
  then have "(2::rat) powi 53 \<le> fl (of_int (- n))" by (rule fl_ge_pow2)
  then show ?thesis using fl_minus[of "of_int n"] by (simp add: as_double_def)
qed

lemma as_double_above:
  assumes "40000 \<le> n"
  shows "40000 \<le> as_double n"
proof (cases "n < 2 ^ 53")
  case True
  then have "as_double n = of_int n" using assms by (intro as_double_exact) auto
  then show ?thesis using assms by simp
next
  case False
  then have "(2::rat) powi 53 \<le> of_int n"
    by (metis not_less of_int_le_iff of_int_numeral of_int_power power_int_numeral)
  then have "(2::rat) powi 53 \<le> fl (of_int n)" by (rule fl_ge_pow2)
  then show ?thesis by (simp add: as_double_def)
qed

section \<open>The blue channel\<close>

lemma fl_coeff: "fl (255 / 40000) = 7349874591868649 / 2 ^ 60"
  by code_simp

lemma fl_coeff_norm: "fl (51 / 8000) = 7349874591868649 / 1152921504606846976"
  using fl_coeff by simp

lemma blue_channel_ceiling: "40000 \<le> a \<Longrightarrow> blue_channel a = 0"
proof -
  assume "40000 \<le> a"
  then have d: "(40000::rat) - as_double a \<le> 0" using as_double_above[of a] by simp
  have "fl (40000 - as_double a) \<le> 0"
  proof (cases "(40000::rat) - as_double a = 0")
    case True
    then show ?thesis by (simp add: fl_def)
  next
    case False
    with d have "(40000::rat) - as_double a < 0" by simp
    then have "fl (40000 - as_double a) < 0" by (rule fl_neg)
    then show ?thesis by simp
  qed
  then have "(if fl (40000 - as_double a) < 0 then 0 else fl (40000 - as_double a)) = 0"
    by auto
  then show ?thesis by (simp add: blue_channel_def Let_def fl_def[of 0] parseInt_def)
qed

text \<open>The inverted altitude of an aircraft below sea level, before and after rounding.\<close>

lemma invalt_below:
  assumes "a \<le> - 157"
  shows "40157 \<le> fl (40000 - as_double a)"
proof (cases "40000 - a < 2 ^ 53")
  case True
  then have "as_double a = of_int a" using assms by (intro as_double_exact) auto
  then have "40000 - as_double a = of_int (40000 - a)" by simp
  moreover have "fl (of_int (40000 - a)) = of_int (40000 - a)"
    using True assms by (intro fl_of_int) auto
  ultimately show ?thesis using assms by simp
next
  case False
  then have "(2::int) ^ 53 - 40000 \<le> - a" by simp
  then have big: "(2::rat) ^ 53 - 40000 \<le> of_int (- a)"
    by (metis of_int_le_iff of_int_diff of_int_numeral of_int_power)
  have "(2::rat) powi 53 \<le> 40000 - as_double a"
  proof (cases "- a < 2 ^ 53")
    case True
    then have "as_double a = of_int a" using assms by (intro as_double_exact) auto
    then show ?thesis using big by simp
  next
    case False
    then have "(2::rat) powi 53 \<le> of_int (- a)"
      by (metis not_less of_int_le_iff of_int_numeral of_int_power power_int_numeral)
    then have "(2::rat) powi 53 \<le> fl (of_int (- a))" by (rule fl_ge_pow2)
    then show ?thesis using fl_minus[of "of_int a"] by (simp add: as_double_def)
  qed
  then have "(2::rat) powi 53 \<le> fl (40000 - as_double a)" by (rule fl_ge_pow2)
  then show ?thesis by simp
qed

lemma blue_channel_below:
  assumes "a \<le> - 157"
  shows "256 \<le> blue_channel a"
proof -
  define v where "v = fl (40000 - as_double a)"
  have v: "40157 \<le> v" unfolding v_def using assms by (rule invalt_below)
  have "(2::rat) powi 8 \<le> 7349874591868649 / 2 ^ 60 * v"
    using v by simp
  then have "(2::rat) powi 8 \<le> fl (7349874591868649 / 2 ^ 60 * v)" by (rule fl_ge_pow2)
  then have "256 \<le> \<lfloor>fl (7349874591868649 / 2 ^ 60 * v)\<rfloor>" by (simp add: le_floor_iff)
  moreover have "blue_channel a = parseInt (fl (7349874591868649 / 2 ^ 60 * v))"
    using v by (simp add: blue_channel_def Let_def fl_coeff_norm v_def)
  ultimately show ?thesis by (simp add: parseInt_def)
qed

text \<open>From one foot to 156 feet below sea level the blue channel is still 255.\<close>

lemma blue_channel_just_below:
  assumes "- 156 \<le> a" "a \<le> - 1"
  shows "blue_channel a = 255"
proof -
  define n :: int where "n = 40000 - a"
  have n: "40001 \<le> n" "n \<le> 40156" using assms by (simp_all add: n_def)
  have "as_double a = of_int a" using assms by (intro as_double_exact) auto
  then have inv: "fl (40000 - as_double a) = of_int n"
    using n fl_of_int[of n] by (simp add: n_def)
  define x :: rat where "x = 7349874591868649 / 2 ^ 60 * of_int n"
  have lo: "7349874591868649 / 2 ^ 60 * 40001 \<le> x"
    unfolding x_def using n(1) by (intro mult_left_mono) auto
  have hi: "x \<le> 7349874591868649 / 2 ^ 60 * 40156"
    unfolding x_def using n(2) by (intro mult_left_mono) auto
  have "(2::rat) powi 7 \<le> x" "x < 2 powi (7 + 1)" using lo hi by simp_all
  then have "\<bar>fl x - x\<bar> \<le> 2 powi (7 - 53)" by (rule fl_near)
  then have near: "\<bar>fl x - x\<bar> \<le> 1 / 2 ^ 46" by (simp add: power_int_minus_divide)
  have lo': "2550 / 10 + 1 / 1000 \<le> x" using lo by simp
  have hi': "x \<le> 2560 / 10 - 2 / 1000" using hi by simp
  have "(1::rat) / 2 ^ 46 \<le> 1 / 1000" by simp
  with near have near': "\<bar>fl x - x\<bar> \<le> 1 / 1000" by linarith
  have ge: "255 \<le> fl x" using near' lo' by linarith
  have less: "fl x < 256" using near' hi' by linarith
  have "\<lfloor>fl x\<rfloor> = 255" using ge less by (simp add: floor_eq_iff)
  moreover have "blue_channel a = parseInt (fl x)"
    using n by (simp add: blue_channel_def Let_def fl_coeff_norm inv x_def)
  ultimately show ?thesis using ge by (simp add: parseInt_def)
qed

lemma blue_channel_0: "blue_channel 0 = 254"
  by code_simp

lemma blue_channel_20000: "blue_channel 20000 = 127"
  by code_simp

lemma blue_channel_minus_1: "blue_channel (- 1) = 255"
  by code_simp

lemma blue_channel_minus_157: "blue_channel (- 157) = 256"
  by code_simp

lemma int_str_255: "int_str 255 = ''255''"
  by (simp add: int_str_def nat_str.simps)

lemma fillColor_getIconForPlane:
  "fillColor (getIconForPlane st p) = ''rgb(255,255,'' @ int_str (blue_channel (altitude p)) @ '')''"
  by (simp add: getIconForPlane_def int_str_255)

lemma strokeWeight_getIconForPlane:
  "strokeWeight (getIconForPlane st p) = (if Selected st = Some (icao p) then 2 else 1)"
  by (simp add: getIconForPlane_def)

section \<open>State lemmas\<close>

subsection \<open>What the marker methods and the panels leave alone\<close>

lemma upd_marker_frame [simp]:
  "Planes (upd_marker m f st) = Planes st"
  "Selected (upd_marker m f st) = Selected st"
  "NumPlanes (upd_marker m f st) = NumPlanes st"
  "geninfo (upd_marker m f st) = geninfo st"
  "selinfo (upd_marker m f st) = selinfo st"
  "length (markers (upd_marker m f st)) = length (markers st)"
  by (simp_all add: upd_marker_def)

lemma markers_upd_marker:
  "markers (upd_marker m f st) ! i =
     (if i = m \<and> m < length (markers st) then f (markers st ! m) else markers st ! i)"
  by (cases "m < length (markers st)") (auto simp: upd_marker_def nth_list_update not_less list_update_beyond)

lemmas marker_methods = setIcon_def setPosition_def setTitle_def setMap_null_def

lemma refreshSelectedInfo_frame [simp]:
  "Planes (refreshSelectedInfo ns st) = Planes st"
  "Selected (refreshSelectedInfo ns st) = Selected st"
  "NumPlanes (refreshSelectedInfo ns st) = NumPlanes st"
  "geninfo (refreshSelectedInfo ns st) = geninfo st"
  "markers (refreshSelectedInfo ns st) = markers st"
  by (simp_all add: refreshSelectedInfo_def split: option.splits)

lemma getIconForPlane_cong:
  "Selected st' = Selected st \<Longrightarrow> altitude q = altitude p \<Longrightarrow> icao q = icao p \<Longrightarrow>
   track q = track p \<Longrightarrow> getIconForPlane st' q = getIconForPlane st p"
  by (simp add: getIconForPlane_def)

lemma getIconForPlane_frame [simp]:
  "getIconForPlane (upd_marker m f st) q = getIconForPlane st q"
  "getIconForPlane (refreshSelectedInfo ns st) q = getIconForPlane st q"
  "getIconForPlane (st\<lparr>Planes := ps\<rparr>) q = getIconForPlane st q"
  "getIconForPlane (st\<lparr>markers := ms\<rparr>) q = getIconForPlane st q"
  "getIconForPlane (st\<lparr>NumPlanes := n\<rparr>) q = getIconForPlane st q"
  by (simp_all add: getIconForPlane_def)

subsection \<open>One iteration of the first loop\<close>

lemma map_fst_upd_plane [simp]: "map fst (upd_plane k f ps) = map fst ps"
  by (induction ps) (auto simp: upd_plane_def)

lemma map_of_upd_plane:
  "map_of (upd_plane k f ps) k' = (if k' = k then map_option f (map_of ps k) else map_of ps k')"
  by (induction ps) (auto simp: upd_plane_def)

lemma set_upd_plane:
  "set (upd_plane k f ps) = (\<lambda>e. if fst e = k then (fst e, f (snd e)) else e) ` set ps"
  unfolding upd_plane_def set_map by (rule image_cong) auto

lemma map_marker_upd_plane:
  "(\<And>p. marker (f p) = marker p) \<Longrightarrow>
   map (\<lambda>e. marker (snd e)) (upd_plane k f ps) = map (\<lambda>e. marker (snd e)) ps"
  by (induction ps) (auto simp: upd_plane_def)

lemma fetch_step_known:
  assumes "map_of (Planes st) (icao x) = Some mp"
  obtains st' where "fetch_step ns x (sh, st) = (insert (icao x) sh, st')"
    and "Planes st' = upd_plane (icao x) (refreshed x) (Planes st)"
    and "Selected st' = Selected st"
    and "NumPlanes st' = NumPlanes st"
    and "length (markers st') = length (markers st)"
    and "\<And>i. i \<noteq> marker mp \<Longrightarrow> markers st' ! i = markers st ! i"
    and "marker mp < length (markers st) \<Longrightarrow>
           markers st' ! marker mp = (markers st ! marker mp)
             \<lparr>position := (latitude x, longitude x),
               icon := getIconForPlane st (x\<lparr>flight := trim (flight x)\<rparr>),
               title := Some (label x)\<rparr>"
proof -
  define st' where "st' = snd (fetch_step ns x (sh, st))"
  have refr: "(\<lambda>p. p\<lparr>altitude := altitude x, speed := speed x, lat := Some (latitude x),
     lon := Some (longitude x), track := track x, flight := trim (flight x)\<rparr>) = refreshed x"
    by (simp add: refreshed_def fun_eq_iff)
  show thesis
  proof (rule that[of st'])
    show "fetch_step ns x (sh, st) = (insert (icao x) sh, st')"
      using assms by (simp add: st'_def fetch_step_def Let_def)
    show "Planes st' = upd_plane (icao x) (refreshed x) (Planes st)"
      using assms by (simp add: st'_def fetch_step_def Let_def marker_methods refr)
    show "Selected st' = Selected st"
      using assms by (simp add: st'_def fetch_step_def Let_def marker_methods)
    show "NumPlanes st' = NumPlanes st"
      using assms by (simp add: st'_def fetch_step_def Let_def marker_methods)
    show "length (markers st') = length (markers st)"
      using assms by (simp add: st'_def fetch_step_def Let_def marker_methods)
    show "\<And>i. i \<noteq> marker mp \<Longrightarrow> markers st' ! i = markers st ! i"
      using assms by (simp add: st'_def fetch_step_def Let_def marker_methods markers_upd_marker)
    show "marker mp < length (markers st) \<Longrightarrow>
           markers st' ! marker mp = (markers st ! marker mp)
             \<lparr>position := (latitude x, longitude x),
               icon := getIconForPlane st (x\<lparr>flight := trim (flight x)\<rparr>),
               title := Some (label x)\<rparr>"
      using assms by (simp add: st'_def fetch_step_def Let_def marker_methods markers_upd_marker
          label_def)
  qed
qed

lemma fetch_step_new:
  assumes "map_of (Planes st) (icao x) = None"
  obtains st' where "fetch_step ns x (sh, st) = (insert (icao x) sh, st')"
    and "Planes st' = Planes st @ [(icao x, created x (length (markers st)))]"
    and "Selected st' = Selected st"
    and "NumPlanes st' = NumPlanes st"
    and "selinfo st' = selinfo st"
    and "markers st' = markers st @
           [\<lparr>position = (latitude x, longitude x),
             icon = getIconForPlane st (x\<lparr>flight := trim (flight x)\<rparr>),
             title = Some (label x), onMap = True, planehex = icao x\<rparr>]"
proof -
  define st' where "st' = snd (fetch_step ns x (sh, st))"
  show thesis
  proof (rule that[of st'])
    show "fetch_step ns x (sh, st) = (insert (icao x) sh, st')"
      using assms by (simp add: st'_def fetch_step_def Let_def)
    show "Planes st' = Planes st @ [(icao x, created x (length (markers st)))]"
      using assms by (simp add: st'_def fetch_step_def Let_def marker_methods created_def)
    show "Selected st' = Selected st"
      using assms by (simp add: st'_def fetch_step_def Let_def marker_methods)
    show "NumPlanes st' = NumPlanes st"
      using assms by (simp add: st'_def fetch_step_def Let_def marker_methods)
    show "selinfo st' = selinfo st"
      using assms by (simp add: st'_def fetch_step_def Let_def marker_methods)
    show "markers st' = markers st @
           [\<lparr>position = (latitude x, longitude x),
             icon = getIconForPlane st (x\<lparr>flight := trim (flight x)\<rparr>),
             title = Some (label x), onMap = True, planehex = icao x\<rparr>]"
      using assms by (simp add: st'_def fetch_step_def Let_def marker_methods upd_marker_def label_def)
  qed
qed

lemma refreshed_keeps [simp]:
  "icao (refreshed x p) = icao p" "marker (refreshed x p) = marker p"
  "altitude (refreshed x p) = altitude x" "track (refreshed x p) = track x"
  "speed (refreshed x p) = speed x" "flight (refreshed x p) = trim (flight x)"
  "lat (refreshed x p) = Some (latitude x)" "lon (refreshed x p) = Some (longitude x)"
  by (simp_all add: refreshed_def)

lemma created_fields [simp]:
  "icao (created x m) = icao x" "marker (created x m) = m"
  "altitude (created x m) = altitude x" "track (created x m) = track x"
  "speed (created x m) = speed x" "flight (created x m) = trim (flight x)"
  "lat (created x m) = None" "lon (created x m) = None"
  by (simp_all add: created_def)

lemma planes_ok_fetch_step:
  assumes "planes_ok st" and "fetch_step ns x (sh, st) = (sh', st')"
  shows "planes_ok st'"
proof (cases "map_of (Planes st) (icao x)")
  case None
  then have notin: "icao x \<notin> fst ` set (Planes st)" by (simp add: map_of_eq_None_iff)
  from None obtain s where s: "fetch_step ns x (sh, st) = (insert (icao x) sh, s)"
    "Planes s = Planes st @ [(icao x, created x (length (markers st)))]"
    "markers s = markers st @
           [\<lparr>position = (latitude x, longitude x),
             icon = getIconForPlane st (x\<lparr>flight := trim (flight x)\<rparr>),
             title = Some (label x), onMap = True, planehex = icao x\<rparr>]"
    by (rule fetch_step_new) blast
  have "s = st'" using s(1) assms(2) by simp
  have "length (markers st) \<notin> (\<lambda>e. marker (snd e)) ` set (Planes st)"
    using assms(1) by (auto simp: planes_ok_def)
  then show ?thesis using assms(1) notin s(2,3) unfolding \<open>s = st'\<close>[symmetric]
    by (auto simp: planes_ok_def less_Suc_eq)
next
  case (Some mp)
  then obtain s where s: "fetch_step ns x (sh, st) = (insert (icao x) sh, s)"
    "Planes s = upd_plane (icao x) (refreshed x) (Planes st)"
    "length (markers s) = length (markers st)"
    by (rule fetch_step_known) blast
  have "s = st'" using s(1) assms(2) by simp
  show ?thesis using assms(1) s(2,3) unfolding \<open>s = st'\<close>[symmetric]
    by (auto simp: planes_ok_def map_marker_upd_plane set_upd_plane)
qed

lemma planes_ok_lookup:
  assumes "planes_ok st" "map_of (Planes st) k = Some p"
  shows "icao p = k" "marker p < length (markers st)" "(k, p) \<in> set (Planes st)"
  using assms map_of_SomeD[OF assms(2)] by (auto simp: planes_ok_def)

lemma planes_ok_marker_inj:
  assumes "planes_ok st" "e \<in> set (Planes st)" "e' \<in> set (Planes st)" "marker (snd e) = marker (snd e')"
  shows "e = e'"
  using assms by (auto simp: planes_ok_def distinct_map inj_on_def)

lemma getIconForPlane_Selected:
  "Selected s = Selected st \<Longrightarrow> getIconForPlane s q = getIconForPlane st q"
  by (simp add: getIconForPlane_def)

lemma planes_ok_key_inj:
  assumes "planes_ok st" "e \<in> set (Planes st)" "e' \<in> set (Planes st)" "fst e = fst e'"
  shows "e = e'"
  using assms by (auto simp: planes_ok_def distinct_map inj_on_def)

lemma icons_ok_fetch_step:
  assumes "planes_ok st" "icons_ok st" and "fetch_step ns x (sh, st) = (sh', st')"
  shows "icons_ok st'"
proof (cases "map_of (Planes st) (icao x)")
  case None
  from None obtain s where s: "fetch_step ns x (sh, st) = (insert (icao x) sh, s)"
    "Planes s = Planes st @ [(icao x, created x (length (markers st)))]"
    "Selected s = Selected st"
    "markers s = markers st @
           [\<lparr>position = (latitude x, longitude x),
             icon = getIconForPlane st (x\<lparr>flight := trim (flight x)\<rparr>),
             title = Some (label x), onMap = True, planehex = icao x\<rparr>]"
    by (rule fetch_step_new) blast
  have "s = st'" using s(1) assms(3) by simp
  have old: "\<And>e. e \<in> set (Planes st) \<Longrightarrow> marker (snd e) < length (markers st)"
    using assms(1) by (auto simp: planes_ok_def)
  show ?thesis using assms(2) s(2,3,4) old unfolding \<open>s = st'\<close>[symmetric] icons_ok_def
    by (auto simp: nth_append getIconForPlane_cong[OF s(3)] intro: getIconForPlane_cong)
next
  case (Some mp)
  then obtain s where s: "fetch_step ns x (sh, st) = (insert (icao x) sh, s)"
    "Planes s = upd_plane (icao x) (refreshed x) (Planes st)"
    "Selected s = Selected st"
    "\<And>i. i \<noteq> marker mp \<Longrightarrow> markers s ! i = markers st ! i"
    "marker mp < length (markers st) \<Longrightarrow>
           markers s ! marker mp = (markers st ! marker mp)
             \<lparr>position := (latitude x, longitude x),
               icon := getIconForPlane st (x\<lparr>flight := trim (flight x)\<rparr>),
               title := Some (label x)\<rparr>"
    by (rule fetch_step_known) blast
  have "s = st'" using s(1) assms(3) by simp
  note mp = planes_ok_lookup[OF assms(1) Some]
  show ?thesis unfolding \<open>s = st'\<close>[symmetric] icons_ok_def s(2) set_upd_plane
  proof (intro ballI)
    fix e' assume "e' \<in> (\<lambda>e. if fst e = icao x then (fst e, refreshed x (snd e)) else e) ` set (Planes st)"
    then obtain e where e: "e \<in> set (Planes st)"
      and e': "e' = (if fst e = icao x then (fst e, refreshed x (snd e)) else e)" by blast
    show "icon (markers s ! marker (snd e')) = getIconForPlane s (snd e')"
    proof (cases "fst e = icao x")
      case True
      then have "e = (icao x, mp)" using planes_ok_key_inj[OF assms(1) e mp(3)] by simp
      then show ?thesis using e' s(5)[OF mp(2)] mp(1)
        by (auto intro!: getIconForPlane_cong simp: s(3))
    next
      case False
      then have "marker (snd e) \<noteq> marker mp"
        using planes_ok_marker_inj[OF assms(1) e mp(3)] by auto
      then show ?thesis using e' False s(4) assms(2) e
        by (auto simp: icons_ok_def getIconForPlane_Selected[OF s(3)])
    qed
  qed
qed

lemma map_of_append_new:
  "m k = None \<Longrightarrow> ([k \<mapsto> v] ++ m) k' = (if k' = k then Some v else m k')"
  by (auto simp: map_add_def split: option.splits)

lemma fetch_step_facts:
  assumes "fetch_step ns x (sh, st) = (sh', st')"
  shows "sh' = insert (icao x) sh"
    and "Selected st' = Selected st"
    and "NumPlanes st' = NumPlanes st"
    and "length (markers st) \<le> length (markers st')"
    and "k \<noteq> icao x \<Longrightarrow> map_of (Planes st') k = map_of (Planes st) k"
    and "map_of (Planes st') (icao x) \<noteq> None"
proof -
  have "sh' = insert (icao x) sh \<and> Selected st' = Selected st \<and> NumPlanes st' = NumPlanes st \<and>
        length (markers st) \<le> length (markers st') \<and>
        (k \<noteq> icao x \<longrightarrow> map_of (Planes st') k = map_of (Planes st) k) \<and>
        map_of (Planes st') (icao x) \<noteq> None"
  proof (cases "map_of (Planes st) (icao x)")
    case None
    from None obtain s where s: "fetch_step ns x (sh, st) = (insert (icao x) sh, s)"
      "Planes s = Planes st @ [(icao x, created x (length (markers st)))]"
      "Selected s = Selected st" "NumPlanes s = NumPlanes st"
      "markers s = markers st @
           [\<lparr>position = (latitude x, longitude x),
             icon = getIconForPlane st (x\<lparr>flight := trim (flight x)\<rparr>),
             title = Some (label x), onMap = True, planehex = icao x\<rparr>]"
      by (rule fetch_step_new) blast
    then show ?thesis using assms None by (auto simp: map_of_append_new)
  next
    case (Some mp)
    then obtain s where s: "fetch_step ns x (sh, st) = (insert (icao x) sh, s)"
      "Planes s = upd_plane (icao x) (refreshed x) (Planes st)"
      "Selected s = Selected st" "NumPlanes s = NumPlanes st"
      "length (markers s) = length (markers st)"
      by (rule fetch_step_known) blast
    then show ?thesis using assms Some by (auto simp: map_of_upd_plane)
  qed
  then show "sh' = insert (icao x) sh"
    and "Selected st' = Selected st"
    and "NumPlanes st' = NumPlanes st"
    and "length (markers st) \<le> length (markers st')"
    and "k \<noteq> icao x \<Longrightarrow> map_of (Planes st') k = map_of (Planes st) k"
    and "map_of (Planes st') (icao x) \<noteq> None" by auto
qed

lemma fetch_step_other_marker:
  assumes "planes_ok st" "fetch_step ns x (sh, st) = (sh', st')"
    and "k \<noteq> icao x" "map_of (Planes st) k = Some p"
  shows "markers st' ! marker p = markers st ! marker p"
proof (cases "map_of (Planes st) (icao x)")
  case None
  from None obtain s where s: "fetch_step ns x (sh, st) = (insert (icao x) sh, s)"
      "markers s = markers st @
           [\<lparr>position = (latitude x, longitude x),
             icon = getIconForPlane st (x\<lparr>flight := trim (flight x)\<rparr>),
             title = Some (label x), onMap = True, planehex = icao x\<rparr>]"
    by (rule fetch_step_new) blast
  then show ?thesis using assms(2) planes_ok_lookup(2)[OF assms(1,4)] by (auto simp: nth_append)
next
  case (Some mp)
  then obtain s where s: "fetch_step ns x (sh, st) = (insert (icao x) sh, s)"
      "\<And>i. i \<noteq> marker mp \<Longrightarrow> markers s ! i = markers st ! i"
    by (rule fetch_step_known) blast
  have "marker p \<noteq> marker mp"
    using planes_ok_marker_inj[OF assms(1) planes_ok_lookup(3)[OF assms(1,4)] planes_ok_lookup(3)[OF assms(1) Some]] assms(3)
    by auto
  then show ?thesis using s assms(2) by auto
qed

text \<open>The entry and the marker of the aircraft that an iteration has just processed.\<close>

lemma fetch_step_effect:
  assumes "planes_ok st" "fetch_step ns x (sh, st) = (sh', st')"
  obtains p where "map_of (Planes st') (icao x) = Some p"
    and "altitude p = altitude x" "speed p = speed x" "track p = track x"
    and "flight p = trim (flight x)"
    and "map_of (Planes st) (icao x) \<noteq> None \<Longrightarrow>
           lat p = Some (latitude x) \<and> lon p = Some (longitude x)"
    and "map_of (Planes st) (icao x) = None \<Longrightarrow> lat p = None \<and> lon p = None"
    and "position (markers st' ! marker p) = (latitude x, longitude x)"
    and "title (markers st' ! marker p) = Some (label x)"
proof (cases "map_of (Planes st) (icao x)")
  case None
  from None obtain s where s: "fetch_step ns x (sh, st) = (insert (icao x) sh, s)"
      "Planes s = Planes st @ [(icao x, created x (length (markers st)))]"
      "markers s = markers st @
           [\<lparr>position = (latitude x, longitude x),
             icon = getIconForPlane st (x\<lparr>flight := trim (flight x)\<rparr>),
             title = Some (label x), onMap = True, planehex = icao x\<rparr>]"
    by (rule fetch_step_new) blast
  have "s = st'" using s(1) assms(2) by simp
  show ?thesis
    by (rule that[of "created x (length (markers st))"])
       (use None s(2,3) in \<open>simp_all add: \<open>s = st'\<close>[symmetric] map_of_append_new\<close>)
next
  case (Some mp)
  then obtain s where s: "fetch_step ns x (sh, st) = (insert (icao x) sh, s)"
      "Planes s = upd_plane (icao x) (refreshed x) (Planes st)"
      "marker mp < length (markers st) \<Longrightarrow>
           markers s ! marker mp = (markers st ! marker mp)
             \<lparr>position := (latitude x, longitude x),
               icon := getIconForPlane st (x\<lparr>flight := trim (flight x)\<rparr>),
               title := Some (label x)\<rparr>"
    by (rule fetch_step_known) blast
  have "s = st'" using s(1) assms(2) by simp
  note m = s(3)[OF planes_ok_lookup(2)[OF assms(1) Some]]
  show ?thesis
    by (rule that[of "refreshed x mp"])
       (use Some s(2) m in \<open>simp_all add: \<open>s = st'\<close>[symmetric] map_of_upd_plane\<close>)
qed

subsection \<open>The first loop\<close>

lemma loop_inv:
  assumes "fold (fetch_step ns) xs (sh, st) = (sh', st')"
  shows "sh' = sh \<union> icao ` set xs"
    and "Selected st' = Selected st"
    and "NumPlanes st' = NumPlanes st"
    and "length (markers st) \<le> length (markers st')"
    and "planes_ok st \<Longrightarrow> planes_ok st'"
    and "planes_ok st \<Longrightarrow> icons_ok st \<Longrightarrow> icons_ok st'"
proof -
  have "sh' = sh \<union> icao ` set xs \<and> Selected st' = Selected st \<and> NumPlanes st' = NumPlanes st \<and>
        length (markers st) \<le> length (markers st') \<and> (planes_ok st \<longrightarrow> planes_ok st') \<and>
        (planes_ok st \<longrightarrow> icons_ok st \<longrightarrow> icons_ok st')"
    using assms
  proof (induction xs arbitrary: sh st)
    case Nil
    then show ?case by simp
  next
    case (Cons x xs)
    obtain sh1 st1 where 1: "fetch_step ns x (sh, st) = (sh1, st1)"
      by (cases "fetch_step ns x (sh, st)")
    with Cons.prems have 2: "fold (fetch_step ns) xs (sh1, st1) = (sh', st')" by simp
    note f = fetch_step_facts[OF 1]
    show ?case
      using Cons.IH[OF 2] f(1-4) planes_ok_fetch_step[OF _ 1] icons_ok_fetch_step[OF _ _ 1]
      by auto
  qed
  then show "sh' = sh \<union> icao ` set xs"
    and "Selected st' = Selected st"
    and "NumPlanes st' = NumPlanes st"
    and "length (markers st) \<le> length (markers st')"
    and "planes_ok st \<Longrightarrow> planes_ok st'"
    and "planes_ok st \<Longrightarrow> icons_ok st \<Longrightarrow> icons_ok st'" by auto
qed

lemma loop_keeps_keys:
  assumes "fold (fetch_step ns) xs (sh, st) = (sh', st')"
    and "map_of (Planes st) k \<noteq> None \<or> k \<in> icao ` set xs"
  shows "map_of (Planes st') k \<noteq> None"
  using assms
proof (induction xs arbitrary: sh st)
  case Nil
  then show ?case by simp
next
  case (Cons x xs)
  obtain sh1 st1 where 1: "fetch_step ns x (sh, st) = (sh1, st1)"
    by (cases "fetch_step ns x (sh, st)")
  with Cons.prems have 2: "fold (fetch_step ns) xs (sh1, st1) = (sh', st')" by simp
  have "map_of (Planes st1) k \<noteq> None \<or> k \<in> icao ` set xs"
    using Cons.prems(2) fetch_step_facts(5)[OF 1, of k] fetch_step_facts(6)[OF 1] by (cases "k = icao x") auto
  then show ?case by (rule Cons.IH[OF 2])
qed

lemma loop_frame:
  assumes "planes_ok st" "fold (fetch_step ns) xs (sh, st) = (sh', st')" "k \<notin> icao ` set xs"
  shows "map_of (Planes st') k = map_of (Planes st) k"
    and "map_of (Planes st) k = Some p \<Longrightarrow> markers st' ! marker p = markers st ! marker p"
proof -
  have "map_of (Planes st') k = map_of (Planes st) k \<and>
        (map_of (Planes st) k = Some p \<longrightarrow> markers st' ! marker p = markers st ! marker p)"
    using assms
  proof (induction xs arbitrary: sh st)
    case Nil
    then show ?case by simp
  next
    case (Cons x xs)
    obtain sh1 st1 where 1: "fetch_step ns x (sh, st) = (sh1, st1)"
      by (cases "fetch_step ns x (sh, st)")
    with Cons.prems have 2: "fold (fetch_step ns) xs (sh1, st1) = (sh', st')" by simp
    have k: "k \<noteq> icao x" "k \<notin> icao ` set xs" using Cons.prems(3) by auto
    note ih = Cons.IH[OF planes_ok_fetch_step[OF Cons.prems(1) 1] 2 k(2)]
    show ?case
      using ih fetch_step_facts(5)[OF 1 k(1)] fetch_step_other_marker[OF Cons.prems(1) 1 k(1)]
      by auto
  qed
  then show "map_of (Planes st') k = map_of (Planes st) k"
    and "map_of (Planes st) k = Some p \<Longrightarrow> markers st' ! marker p = markers st ! marker p"
    by auto
qed

subsection \<open>The second loop\<close>

lemma faded_refl [simp]: "faded a a"
  by (simp add: faded_def)

lemma faded_trans: "faded a b \<Longrightarrow> faded b c \<Longrightarrow> faded a c"
  by (auto simp: faded_def)

lemma faded_fields:
  assumes "faded a b"
  shows "icon b = icon a" "position b = position a" "title b = title a" "planehex b = planehex a"
    and "\<not> onMap a \<Longrightarrow> \<not> onMap b"
  using assms by (auto simp: faded_def)

lemma filter_key_absent:
  "map_of ps k = None \<Longrightarrow> filter (\<lambda>(k', _). k' \<noteq> k) ps = ps"
  by (induction ps) (auto split: if_splits)

lemma remove_idle_facts:
  shows "Selected (remove_idle sh k st) = Selected st"
    and "NumPlanes (remove_idle sh k st) = NumPlanes st"
    and "selinfo (remove_idle sh k st) = selinfo st"
    and "length (markers (remove_idle sh k st)) = length (markers st)"
    and "Planes (remove_idle sh k st)
           = filter (\<lambda>e. fst e \<in> sh \<or> inherited (fst e) \<or> fst e \<noteq> k) (Planes st)"
    and "faded (markers st ! i) (markers (remove_idle sh k st) ! i)"
proof -
  show "Selected (remove_idle sh k st) = Selected st"
    and "NumPlanes (remove_idle sh k st) = NumPlanes st"
    and "selinfo (remove_idle sh k st) = selinfo st"
    and "length (markers (remove_idle sh k st)) = length (markers st)"
    by (simp_all add: remove_idle_def marker_methods split: option.splits)
  show "Planes (remove_idle sh k st)
          = filter (\<lambda>e. fst e \<in> sh \<or> inherited (fst e) \<or> fst e \<noteq> k) (Planes st)"
  proof (cases "k \<in> sh \<or> inherited k")
    case True
    then have "filter (\<lambda>e. fst e \<in> sh \<or> inherited (fst e) \<or> fst e \<noteq> k) (Planes st)
               = Planes st"
      by (auto simp: filter_id_conv)
    then show ?thesis using True by (simp add: remove_idle_def)
  next
    case False
    then have eq: "filter (\<lambda>e. fst e \<in> sh \<or> inherited (fst e) \<or> fst e \<noteq> k) (Planes st)
                   = filter (\<lambda>(k', _). k' \<noteq> k) (Planes st)"
      by (auto intro: filter_cong)
    show ?thesis unfolding eq using False
      by (simp add: remove_idle_def marker_methods filter_key_absent split: option.splits)
  qed
  show "faded (markers st ! i) (markers (remove_idle sh k st) ! i)"
    by (auto simp: remove_idle_def marker_methods markers_upd_marker faded_def split: option.splits)
qed

lemma remove_idle_off_map:
  assumes "k \<notin> sh" "\<not> inherited k" "map_of (Planes st) k = Some e"
    and "marker e < length (markers st)"
  shows "\<not> onMap (markers (remove_idle sh k st) ! marker e)"
  using assms by (simp add: remove_idle_def marker_methods markers_upd_marker)

lemma remove_loop_facts:
  shows "Selected (fold (remove_idle sh) ks st) = Selected st"
    and "NumPlanes (fold (remove_idle sh) ks st) = NumPlanes st"
    and "selinfo (fold (remove_idle sh) ks st) = selinfo st"
    and "length (markers (fold (remove_idle sh) ks st)) = length (markers st)"
    and "Planes (fold (remove_idle sh) ks st)
           = filter (\<lambda>e. fst e \<in> sh \<or> inherited (fst e) \<or> fst e \<notin> set ks) (Planes st)"
    and "faded (markers st ! i) (markers (fold (remove_idle sh) ks st) ! i)"
proof -
  have "Selected (fold (remove_idle sh) ks st) = Selected st \<and>
        NumPlanes (fold (remove_idle sh) ks st) = NumPlanes st \<and>
        selinfo (fold (remove_idle sh) ks st) = selinfo st \<and>
        length (markers (fold (remove_idle sh) ks st)) = length (markers st) \<and>
        Planes (fold (remove_idle sh) ks st)
           = filter (\<lambda>e. fst e \<in> sh \<or> inherited (fst e) \<or> fst e \<notin> set ks) (Planes st) \<and>
        faded (markers st ! i) (markers (fold (remove_idle sh) ks st) ! i)"
  proof (induction ks arbitrary: st)
    case Nil
    then show ?case by simp
  next
    case (Cons k ks)
    have "filter (\<lambda>e. fst e \<in> sh \<or> inherited (fst e) \<or> fst e \<notin> set ks)
            (filter (\<lambda>e. fst e \<in> sh \<or> inherited (fst e) \<or> fst e \<noteq> k) (Planes st))
          = filter (\<lambda>e. fst e \<in> sh \<or> inherited (fst e) \<or> fst e \<notin> set (k # ks)) (Planes st)"
      by (auto intro: filter_cong)
    then show ?case
      using Cons.IH[of "remove_idle sh k st"]
        remove_idle_facts(1-5)[where sh=sh and k=k and st=st]
        remove_idle_facts(6)[where sh=sh and k=k and st=st and i=i]
      by (auto intro: faded_trans)
  qed
  then show "Selected (fold (remove_idle sh) ks st) = Selected st"
    and "NumPlanes (fold (remove_idle sh) ks st) = NumPlanes st"
    and "selinfo (fold (remove_idle sh) ks st) = selinfo st"
    and "length (markers (fold (remove_idle sh) ks st)) = length (markers st)"
    and "Planes (fold (remove_idle sh) ks st)
           = filter (\<lambda>e. fst e \<in> sh \<or> inherited (fst e) \<or> fst e \<notin> set ks) (Planes st)"
    and "faded (markers st ! i) (markers (fold (remove_idle sh) ks st) ! i)" by auto
qed

lemma map_of_filter_key:
  "map_of (filter (\<lambda>e. P (fst e)) ps) k = (if P k then map_of ps k else None)"
  by (induction ps) auto

lemma remove_loop_off_map:
  assumes "k \<in> set ks" "k \<notin> sh" "\<not> inherited k" "map_of (Planes st) k = Some e"
    and "marker e < length (markers st)"
  shows "\<not> onMap (markers (fold (remove_idle sh) ks st) ! marker e)"
  using assms
proof (induction ks arbitrary: st)
  case Nil
  then show ?case by simp
next
  case (Cons a ks)
  show ?case
  proof (cases "a = k")
    case True
    have "\<not> onMap (markers (remove_idle sh k st) ! marker e)"
      using Cons.prems(2-5) by (rule remove_idle_off_map)
    then show ?thesis
      using faded_fields(5)[OF remove_loop_facts(6)[where st="remove_idle sh k st"
            and i="marker e" and sh=sh and ks=ks]] True
      by simp
  next
    case False
    then have 1: "k \<in> set ks" using Cons.prems(1) by simp
    have 2: "map_of (Planes (remove_idle sh a st)) k = Some e"
      using Cons.prems(4) False
      by (simp add: remove_idle_facts(5)
          map_of_filter_key[of "\<lambda>x. x \<in> sh \<or> inherited x \<or> x \<noteq> a"])
    have 3: "marker e < length (markers (remove_idle sh a st))"
      using Cons.prems(5) by (simp add: remove_idle_facts(4))
    show ?thesis using Cons.IH[OF 1 Cons.prems(2,3) 2 3] by simp
  qed
qed

subsection \<open>The first loop with its exception\<close>

lemma fetch_plane_Inr: "fetch_plane ns x acc = Inr acc' \<Longrightarrow> acc' = fetch_step ns x acc"
  by (cases acc) (auto simp: fetch_plane_def split: if_splits)

lemma fetch_plane_clean:
  "\<not> inherited (icao x) \<Longrightarrow> fetch_plane ns x acc = Inr (fetch_step ns x acc)"
  by (cases acc) (simp add: fetch_plane_def)

lemma fetch_plane_throws:
  "map_of (Planes st) (icao x) = None \<Longrightarrow> inherited (icao x) \<Longrightarrow>
   fetch_plane ns x (sh, st) = Inl TypeError"
  by (simp add: fetch_plane_def)

lemma fetch_loop_clean: "clean xs \<Longrightarrow> fetch_loop ns xs acc = (None, fold (fetch_step ns) xs acc)"
  by (induction xs arbitrary: acc) (simp_all add: clean_def fetch_plane_clean)

text \<open>Whatever the loop returns, it has run the iterations of a prefix of the snapshot.\<close>

lemma fetch_loop_prefix:
  assumes "fetch_loop ns xs acc = (r, acc')"
  shows "\<exists>ys zs. xs = ys @ zs \<and> acc' = fold (fetch_step ns) ys acc \<and> (r = None \<longrightarrow> zs = [])"
  using assms
proof (induction xs arbitrary: acc)
  case Nil
  then show ?case by simp
next
  case (Cons x xs)
  show ?case
  proof (cases "fetch_plane ns x acc")
    case (Inl e)
    then have "acc' = acc" "r = Some e" using Cons.prems by simp_all
    then have "x # xs = [] @ (x # xs) \<and> acc' = fold (fetch_step ns) [] acc \<and> (r = None \<longrightarrow> x # xs = [])"
      by simp
    then show ?thesis by blast
  next
    case (Inr acc1)
    then have 1: "fetch_loop ns xs acc1 = (r, acc')" using Cons.prems by simp
    have acc1: "acc1 = fetch_step ns x acc" using Inr by (rule fetch_plane_Inr)
    from Cons.IH[OF 1] obtain ys zs where
      "xs = ys @ zs" "acc' = fold (fetch_step ns) ys acc1" "r = None \<longrightarrow> zs = []" by blast
    then have "x # xs = (x # ys) @ zs \<and> acc' = fold (fetch_step ns) (x # ys) acc \<and>
               (r = None \<longrightarrow> zs = [])"
      by (simp add: acc1)
    then show ?thesis by blast
  qed
qed

lemma fetch_loop_done:
  assumes "fetch_loop ns xs acc = (None, acc')"
  shows "fold (fetch_step ns) xs acc = acc'"
  using fetch_loop_prefix[OF assms] by auto

subsection \<open>The callback\<close>

lemma fetchData_thrown:
  assumes "fetch_loop ns xs ({}, st) = (Some e, sh, st1)"
  shows "fetchData_outcome ns xs st = (Some e, st1)"
    and "fetchData ns xs st = st1"
    and "\<exists>ys. fold (fetch_step ns) ys ({}, st) = (sh, st1)"
proof -
  show "fetchData_outcome ns xs st = (Some e, st1)"
    by (simp add: fetchData_outcome_def assms)
  then show "fetchData ns xs st = st1" by (simp add: fetchData_def)
  show "\<exists>ys. fold (fetch_step ns) ys ({}, st) = (sh, st1)"
    using fetch_loop_prefix[OF assms] by auto
qed

text \<open>
  The callback that runs to its end, in terms of the state \<open>st1\<close> that the first loop
  leaves.
\<close>

lemma fetchData_facts:
  assumes "fetch_loop ns xs ({}, st) = (None, sh, st1)"
  shows "Selected (fetchData ns xs st) = Selected st"
    and "NumPlanes (fetchData ns xs st) = length xs"
    and "length (markers (fetchData ns xs st)) = length (markers st1)"
    and "Planes (fetchData ns xs st)
           = filter (\<lambda>e. fst e \<in> icao ` set xs \<or> inherited (fst e)) (Planes st1)"
    and "map_of (Planes (fetchData ns xs st)) k
           = (if k \<in> icao ` set xs \<or> inherited k then map_of (Planes st1) k else None)"
    and "faded (markers st1 ! i) (markers (fetchData ns xs st) ! i)"
    and "fetchData_outcome ns xs st = (None, fetchData ns xs st)"
proof -
  have f: "fold (fetch_step ns) xs ({}, st) = (sh, st1)" using assms by (rule fetch_loop_done)
  have sh: "sh = icao ` set xs" using loop_inv(1)[OF f] by simp
  have fd: "fetchData ns xs st
            = fold (remove_idle sh) (map fst (Planes st1)) (st1\<lparr>NumPlanes := length xs\<rparr>)"
    by (simp add: fetchData_def fetchData_outcome_def assms Let_def)
  show "fetchData_outcome ns xs st = (None, fetchData ns xs st)"
    by (simp add: fetchData_def fetchData_outcome_def assms Let_def)
  show "Selected (fetchData ns xs st) = Selected st"
    using loop_inv(2)[OF f] by (simp add: fd remove_loop_facts)
  show "NumPlanes (fetchData ns xs st) = length xs"
    by (simp add: fd remove_loop_facts)
  show "length (markers (fetchData ns xs st)) = length (markers st1)"
    by (simp add: fd remove_loop_facts)
  show P: "Planes (fetchData ns xs st)
             = filter (\<lambda>e. fst e \<in> icao ` set xs \<or> inherited (fst e)) (Planes st1)"
    unfolding fd remove_loop_facts(5) sh by (auto intro: filter_cong)
  show "map_of (Planes (fetchData ns xs st)) k
           = (if k \<in> icao ` set xs \<or> inherited k then map_of (Planes st1) k else None)"
    unfolding P by (rule map_of_filter_key[of "\<lambda>k. k \<in> icao ` set xs \<or> inherited k"])
  show "faded (markers st1 ! i) (markers (fetchData ns xs st) ! i)"
    using remove_loop_facts(6)[where st="st1\<lparr>NumPlanes := length xs\<rparr>" and i=i and sh=sh
        and ks="map fst (Planes st1)"]
    by (simp add: fd)
qed

text \<open>On a snapshot without inherited names the callback runs to its end.\<close>

lemma fetchData_clean:
  assumes "clean xs"
  obtains sh st1 where "fetch_loop ns xs ({}, st) = (None, sh, st1)"
    and "fold (fetch_step ns) xs ({}, st) = (sh, st1)"
proof -
  obtain sh st1 where 1: "fold (fetch_step ns) xs ({}, st) = (sh, st1)"
    by (cases "fold (fetch_step ns) xs ({}, st)")
  then have "fetch_loop ns xs ({}, st) = (None, sh, st1)"
    using fetch_loop_clean[OF assms, of ns "({}, st)"] by simp
  then show thesis using 1 that by blast
qed

lemma fetchData_Selected: "Selected (fetchData ns xs st) = Selected st"
proof -
  obtain r sh st1 where 1: "fetch_loop ns xs ({}, st) = (r, sh, st1)"
    by (cases "fetch_loop ns xs ({}, st)") auto
  show ?thesis
  proof (cases r)
    case None
    then show ?thesis using fetchData_facts(1) 1 by simp
  next
    case (Some e)
    with 1 obtain ys where "fold (fetch_step ns) ys ({}, st) = (sh, st1)"
      using fetchData_thrown(3) by blast
    then have "Selected st1 = Selected st" by (rule loop_inv(2))
    then show ?thesis using fetchData_thrown(2) 1 Some by simp
  qed
qed

lemma planes_ok_fetchData: "planes_ok st \<Longrightarrow> planes_ok (fetchData ns xs st)"
proof -
  assume planes_ok: "planes_ok st"
  obtain r sh st1 where 1: "fetch_loop ns xs ({}, st) = (r, sh, st1)"
    by (cases "fetch_loop ns xs ({}, st)") auto
  obtain ys where ys: "fold (fetch_step ns) ys ({}, st) = (sh, st1)"
    using fetch_loop_prefix[OF 1] by auto
  have ok1: "planes_ok st1" using loop_inv(5)[OF ys planes_ok] .
  show ?thesis
  proof (cases r)
    case None
    with 1 have L: "fetch_loop ns xs ({}, st) = (None, sh, st1)" by simp
    show ?thesis
      using ok1 unfolding planes_ok_def fetchData_facts(4)[OF L] fetchData_facts(3)[OF L]
      by (auto simp: distinct_map_filter)
  next
    case (Some e)
    then show ?thesis using ok1 fetchData_thrown(2) 1 by simp
  qed
qed

lemma icons_ok_fetchData: "planes_ok st \<Longrightarrow> icons_ok st \<Longrightarrow> icons_ok (fetchData ns xs st)"
proof -
  assume planes_ok: "planes_ok st" and ok: "icons_ok st"
  obtain r sh st1 where 1: "fetch_loop ns xs ({}, st) = (r, sh, st1)"
    by (cases "fetch_loop ns xs ({}, st)") auto
  obtain ys where ys: "fold (fetch_step ns) ys ({}, st) = (sh, st1)"
    using fetch_loop_prefix[OF 1] by auto
  have ok1: "icons_ok st1" using loop_inv(6)[OF ys planes_ok ok] .
  show ?thesis
  proof (cases r)
    case None
    with 1 have L: "fetch_loop ns xs ({}, st) = (None, sh, st1)" by simp
    have sel: "Selected (fetchData ns xs st) = Selected st1"
      using fetchData_Selected[of ns xs st] loop_inv(2)[OF ys] by simp
    show ?thesis
      using ok1 faded_fields(1)[OF fetchData_facts(6)[OF L]]
      unfolding icons_ok_def fetchData_facts(4)[OF L]
      by (auto simp: getIconForPlane_Selected[OF sel])
  next
    case (Some e)
    then show ?thesis using ok1 fetchData_thrown(2) 1 by simp
  qed
qed

text \<open>An entry stays in the registry unless the loop of lines 104-109 deletes it.\<close>

lemma fetchData_keeps:
  assumes "map_of (Planes st) k \<noteq> None" "k \<in> icao ` set xs \<or> inherited k"
  shows "map_of (Planes (fetchData ns xs st)) k \<noteq> None"
proof -
  obtain r sh st1 where 1: "fetch_loop ns xs ({}, st) = (r, sh, st1)"
    by (cases "fetch_loop ns xs ({}, st)") auto
  obtain ys where ys: "fold (fetch_step ns) ys ({}, st) = (sh, st1)"
    using fetch_loop_prefix[OF 1] by auto
  have k1: "map_of (Planes st1) k \<noteq> None" using loop_keeps_keys[OF ys] assms(1) by blast
  show ?thesis
  proof (cases r)
    case None
    with 1 have L: "fetch_loop ns xs ({}, st) = (None, sh, st1)" by simp
    show ?thesis using k1 assms(2) by (simp add: fetchData_facts(5)[OF L])
  next
    case (Some e)
    then show ?thesis using k1 fetchData_thrown(2) 1 by simp
  qed
qed

lemma latest_split:
  assumes "k \<in> icao ` set xs"
  obtains pre post where "xs = pre @ latest k xs # post" "icao (latest k xs) = k"
    "k \<notin> icao ` set post"
proof -
  from assms have "\<exists>y\<in>set xs. icao y = k" by auto
  then obtain pre y post where s: "xs = pre @ y # post" "icao y = k" "\<forall>z\<in>set post. icao z \<noteq> k"
    by (auto dest!: split_list_last_prop)
  then have "filter (\<lambda>y. icao y = k) post = []" by (auto simp: filter_empty_conv)
  then have l: "latest k xs = y" using s(1,2) by (simp add: latest_def)
  have "k \<notin> icao ` set post" using s(3) by auto
  then show thesis using that[of pre post] s(1,2) l by simp
qed

lemma loop_last:
  assumes "planes_ok st" "fold (fetch_step ns) (pre @ x # post) (sh, st) = (sh', st')"
    and "icao x \<notin> icao ` set post"
  obtains p where "map_of (Planes st') (icao x) = Some p"
    and "altitude p = altitude x" "speed p = speed x" "track p = track x"
    and "flight p = trim (flight x)"
    and "map_of (Planes st) (icao x) \<noteq> None \<or> icao x \<in> icao ` set pre \<Longrightarrow>
           lat p = Some (latitude x) \<and> lon p = Some (longitude x)"
    and "position (markers st' ! marker p) = (latitude x, longitude x)"
    and "title (markers st' ! marker p) = Some (label x)"
proof -
  obtain sh1 st1 where 1: "fold (fetch_step ns) pre (sh, st) = (sh1, st1)"
    by (cases "fold (fetch_step ns) pre (sh, st)")
  obtain sh2 st2 where 2: "fetch_step ns x (sh1, st1) = (sh2, st2)"
    by (cases "fetch_step ns x (sh1, st1)")
  have 3: "fold (fetch_step ns) post (sh2, st2) = (sh', st')"
    using assms(2) 1 2 by simp
  have pk1: "planes_ok st1" using loop_inv(5)[OF 1 assms(1)] .
  have pk2: "planes_ok st2" using planes_ok_fetch_step[OF pk1 2] .
  from pk1 2 obtain p where p: "map_of (Planes st2) (icao x) = Some p"
    "altitude p = altitude x" "speed p = speed x" "track p = track x"
    "flight p = trim (flight x)"
    "map_of (Planes st1) (icao x) \<noteq> None \<Longrightarrow>
           lat p = Some (latitude x) \<and> lon p = Some (longitude x)"
    "position (markers st2 ! marker p) = (latitude x, longitude x)"
    "title (markers st2 ! marker p) = Some (label x)"
    by (rule fetch_step_effect) blast
  note fr = loop_frame[OF pk2 3 assms(3)]
  show thesis
  proof (rule that[of p])
    show "map_of (Planes st') (icao x) = Some p" using fr(1) p(1) by simp
    show "map_of (Planes st) (icao x) \<noteq> None \<or> icao x \<in> icao ` set pre \<Longrightarrow>
           lat p = Some (latitude x) \<and> lon p = Some (longitude x)"
      using loop_keeps_keys[OF 1] p(6) by blast
    show "position (markers st' ! marker p) = (latitude x, longitude x)"
      using fr(2)[OF p(1)] p(7) by simp
    show "title (markers st' ! marker p) = Some (label x)"
      using fr(2)[OF p(1)] p(8) by simp
  qed (rule p)+
qed

lemma fetchData_present:
  assumes "clean xs" "k \<in> icao ` set xs"
  shows "map_of (Planes (fetchData ns xs st)) k \<noteq> None"
proof -
  from assms(1) obtain sh st1 where L: "fetch_loop ns xs ({}, st) = (None, sh, st1)"
    and 1: "fold (fetch_step ns) xs ({}, st) = (sh, st1)"
    by (rule fetchData_clean)
  show ?thesis using loop_keeps_keys[OF 1, of k] assms(2) by (simp add: fetchData_facts(5)[OF L])
qed

text \<open>What a reconciliation leaves for an identity of the snapshot.\<close>

lemma fetchData_latest:
  assumes "planes_ok st" "k \<in> icao ` set xs" "clean xs"
  obtains p where "map_of (Planes (fetchData ns xs st)) k = Some p"
    and "altitude p = altitude (latest k xs)" "speed p = speed (latest k xs)"
    and "track p = track (latest k xs)" "flight p = trim (flight (latest k xs))"
    and "map_of (Planes st) k \<noteq> None \<Longrightarrow>
           lat p = Some (latitude (latest k xs)) \<and> lon p = Some (longitude (latest k xs))"
    and "position (markers (fetchData ns xs st) ! marker p)
           = (latitude (latest k xs), longitude (latest k xs))"
    and "title (markers (fetchData ns xs st) ! marker p) = Some (label (latest k xs))"
proof -
  from assms(3) obtain sh st1 where L: "fetch_loop ns xs ({}, st) = (None, sh, st1)"
    and 1: "fold (fetch_step ns) xs ({}, st) = (sh, st1)"
    by (rule fetchData_clean)
  from assms(2) obtain pre post where s: "xs = pre @ latest k xs # post"
    "icao (latest k xs) = k" "k \<notin> icao ` set post"
    by (rule latest_split)
  define x where "x = latest k xs"
  have f1: "fold (fetch_step ns) (pre @ x # post) ({}, st) = (sh, st1)"
    using 1 s(1) by (simp add: x_def)
  have kx: "icao x = k" "icao x \<notin> icao ` set post" using s(2,3) by (simp_all add: x_def)
  from assms(1) f1 kx(2) obtain p where p: "map_of (Planes st1) (icao x) = Some p"
    "altitude p = altitude x" "speed p = speed x" "track p = track x"
    "flight p = trim (flight x)"
    "map_of (Planes st) (icao x) \<noteq> None \<or> icao x \<in> icao ` set pre \<Longrightarrow>
           lat p = Some (latitude x) \<and> lon p = Some (longitude x)"
    "position (markers st1 ! marker p) = (latitude x, longitude x)"
    "title (markers st1 ! marker p) = Some (label x)"
    by (rule loop_last) blast
  note fd = faded_fields[OF fetchData_facts(6)[OF L, of "marker p"]]
  show thesis
  proof (rule that[of p])
    show "map_of (Planes (fetchData ns xs st)) k = Some p"
      using p(1) assms(2) kx(1) by (simp add: fetchData_facts(5)[OF L])
    show "map_of (Planes st) k \<noteq> None \<Longrightarrow>
           lat p = Some (latitude (latest k xs)) \<and> lon p = Some (longitude (latest k xs))"
      using p(6) kx(1) by (simp add: x_def)
    show "position (markers (fetchData ns xs st) ! marker p)
           = (latitude (latest k xs), longitude (latest k xs))"
      using p(7) fd(2) by (simp add: x_def)
    show "title (markers (fetchData ns xs st) ! marker p) = Some (label (latest k xs))"
      using p(8) fd(3) by (simp add: x_def)
  qed (use p(2-5) in \<open>simp_all add: x_def\<close>)
qed

lemma single_entry:
  "distinct (map fst ps) \<Longrightarrow> map_of ps k = Some p \<Longrightarrow> filter (\<lambda>e. fst e = k) ps = [(k, p)]"
proof (induction ps)
  case Nil
  then show ?case by simp
next
  case (Cons a ps)
  show ?case
  proof (cases "fst a = k")
    case True
    then have "k \<notin> fst ` set ps" using Cons.prems(1) by auto
    then have "\<forall>e\<in>set ps. fst e \<noteq> k" by blast
    then have "filter (\<lambda>e. fst e = k) ps = []"
      by (simp add: filter_empty_conv)
    then show ?thesis using True Cons.prems(2) by (cases a) auto
  next
    case False
    then show ?thesis using Cons by (cases a) auto
  qed
qed

subsection \<open>selectPlane\<close>

lemma selectPlane_absent: "map_of (Planes st) hex = None \<Longrightarrow> selectPlane ns hex st = st"
  by (simp add: selectPlane_def)

lemma selectPlane_present:
  assumes "map_of (Planes st) hex = Some p"
  shows "selectPlane ns hex st =
           refreshSelectedInfo ns
             (setIcon (marker p) (getIconForPlane (st\<lparr>Selected := Some hex\<rparr>) p)
               (case map_of (Planes st) (prop_key (Selected st)) of
                  None \<Rightarrow> st\<lparr>Selected := Some hex\<rparr>
                | Some po \<Rightarrow> setIcon (marker po) (getIconForPlane (st\<lparr>Selected := Some hex\<rparr>) po)
                               (st\<lparr>Selected := Some hex\<rparr>)))"
  using assms by (simp add: selectPlane_def Let_def marker_methods split: option.splits)

lemma selectPlane_frame:
  "Planes (selectPlane ns hex st) = Planes st"
  "NumPlanes (selectPlane ns hex st) = NumPlanes st"
  "geninfo (selectPlane ns hex st) = geninfo st"
  "length (markers (selectPlane ns hex st)) = length (markers st)"
  by (cases "map_of (Planes st) hex";
      simp add: selectPlane_absent selectPlane_present marker_methods split: option.splits)+

lemma selectPlane_Selected:
  "map_of (Planes st) hex = Some p \<Longrightarrow> Selected (selectPlane ns hex st) = Some hex"
  by (simp add: selectPlane_present marker_methods split: option.splits)

lemma getIconForPlane_set_Selected:
  "Selected s = Some hex \<Longrightarrow> getIconForPlane (st\<lparr>Selected := Some hex\<rparr>) q = getIconForPlane s q"
  by (simp add: getIconForPlane_def)

lemma selectPlane_icon_new:
  assumes "marker p < length (markers st)" "map_of (Planes st) hex = Some p"
  shows "icon (markers (selectPlane ns hex st) ! marker p) = getIconForPlane (selectPlane ns hex st) p"
  using assms(1)
  by (simp add: selectPlane_present[OF assms(2)] marker_methods markers_upd_marker getIconForPlane_def
      split: option.splits)

lemma selectPlane_icon_old:
  assumes "marker po < length (markers st)" "map_of (Planes st) hex = Some p"
    and "map_of (Planes st) (prop_key (Selected st)) = Some po" "marker po \<noteq> marker p"
  shows "icon (markers (selectPlane ns hex st) ! marker po) = getIconForPlane (selectPlane ns hex st) po"
  using assms(1,3,4)
  by (simp add: selectPlane_present[OF assms(2)] marker_methods markers_upd_marker getIconForPlane_def)

lemma selectPlane_marker_other:
  assumes "map_of (Planes st) hex = Some p" "i \<noteq> marker p"
    and "\<And>po. map_of (Planes st) (prop_key (Selected st)) = Some po \<Longrightarrow> i \<noteq> marker po"
  shows "markers (selectPlane ns hex st) ! i = markers st ! i"
  using assms(2,3)
  by (simp add: selectPlane_present[OF assms(1)] marker_methods markers_upd_marker
      split: option.splits)

lemma planes_ok_selectPlane: "planes_ok st \<Longrightarrow> planes_ok (selectPlane ns hex st)"
  by (simp add: planes_ok_def selectPlane_frame)

lemma icons_ok_selectPlane:
  assumes "planes_ok st" "icons_ok st"
  shows "icons_ok (selectPlane ns hex st)"
proof (cases "map_of (Planes st) hex")
  case None
  then show ?thesis using assms(2) by (simp add: selectPlane_absent)
next
  case (Some p)
  note p = planes_ok_lookup[OF assms(1) Some]
  show ?thesis unfolding icons_ok_def selectPlane_frame
  proof
    fix e assume e: "e \<in> set (Planes st)"
    then have lookup: "map_of (Planes st) (fst e) = Some (snd e)"
      using assms(1) by (simp add: planes_ok_def)
    note q = planes_ok_lookup[OF assms(1) lookup]
    show "icon (markers (selectPlane ns hex st) ! marker (snd e))
            = getIconForPlane (selectPlane ns hex st) (snd e)"
    proof (cases "marker (snd e) = marker p")
      case True
      then have "e = (hex, p)" using planes_ok_marker_inj[OF assms(1) e p(3)] by simp
      then show ?thesis using selectPlane_icon_new[OF p(2) Some] by simp
    next
      case False
      then have ne: "fst e \<noteq> hex" using lookup Some by auto
      show ?thesis
      proof (cases "map_of (Planes st) (prop_key (Selected st)) = Some (snd e)")
        case True
        show ?thesis using selectPlane_icon_old[OF q(2) Some True False] .
      next
        case other: False
        have "\<And>po. map_of (Planes st) (prop_key (Selected st)) = Some po \<Longrightarrow>
                marker (snd e) \<noteq> marker po"
        proof
          fix po assume po: "map_of (Planes st) (prop_key (Selected st)) = Some po"
            and "marker (snd e) = marker po"
          then have "e = (prop_key (Selected st), po)"
            using planes_ok_marker_inj[OF assms(1) e planes_ok_lookup(3)[OF assms(1) po]] by simp
          then show False using other po by simp
        qed
        then have same: "markers (selectPlane ns hex st) ! marker (snd e)
                         = markers st ! marker (snd e)"
          using selectPlane_marker_other[OF Some False] by blast
        have "Selected st \<noteq> Some (fst e)"
          using other lookup by (auto simp: prop_key_def)
        then have "getIconForPlane (selectPlane ns hex st) (snd e) = getIconForPlane st (snd e)"
          using ne q(1) by (simp add: getIconForPlane_def selectPlane_Selected[OF Some])
        then show ?thesis using same assms(2) e by (simp add: icons_ok_def)
      qed
    qed
  qed
qed

subsection \<open>Panels, selection and reachable states\<close>

lemma planes_ok_init: "planes_ok init"
  by (simp add: planes_ok_def init_def)

lemma icons_ok_init: "icons_ok init"
  by (simp add: icons_ok_def init_def)

lemma sel_ok_init: "sel_ok init"
  by (simp add: sel_ok_def init_def)

lemma refreshSelectedInfo_unresolved:
  "map_of (Planes st) (prop_key (Selected st)) = None \<Longrightarrow> refreshSelectedInfo ns st = st"
  by (simp add: refreshSelectedInfo_def)

lemma refreshSelectedInfo_resolved:
  "map_of (Planes st) (prop_key (Selected st)) = Some p \<Longrightarrow>
   selinfo (refreshSelectedInfo ns st) =
     ''ICAO: '' @ icao p @ ''<br>''
     @ (if flight p \<noteq> [] then ''<b>'' @ flight p @ ''</b><br>'' else [])
     @ ''Altitude: '' @ ns (as_double (altitude p)) @ '' feet<br>''
     @ ''Speed: '' @ ns (speed p) @ '' knots<br>''
     @ ''Coordinates: '' @ num_or_undefined ns (lat p) @ '', '' @ num_or_undefined ns (lon p)
     @ ''<br>''"
  by (simp add: refreshSelectedInfo_def)

lemma sel_ok_selectPlane: "sel_ok st \<Longrightarrow> sel_ok (selectPlane ns hex st)"
proof (cases "map_of (Planes st) hex")
  case None
  assume "sel_ok st"
  then show ?thesis using None by (simp add: selectPlane_absent)
next
  case (Some p)
  show ?thesis
    using Some by (simp add: sel_ok_def selectPlane_Selected[OF Some] selectPlane_frame)
qed

subsection \<open>No name in use is inherited\<close>

lemma names_ok_init: "names_ok init"
  by (simp add: names_ok_def init_def)

lemma names_ok_markers:
  assumes "\<forall>m \<in> set ms. \<not> inherited (planehex m)" "length ms' = length ms"
    and "\<And>i. i < length ms \<Longrightarrow> planehex (ms' ! i) = planehex (ms ! i)"
  shows "\<forall>m \<in> set ms'. \<not> inherited (planehex m)"
proof
  fix m assume "m \<in> set ms'"
  then obtain i where i: "i < length ms'" "ms' ! i = m" by (auto simp: in_set_conv_nth)
  then have "planehex m = planehex (ms ! i)" using assms(2,3) by auto
  moreover have "ms ! i \<in> set ms" using i(1) assms(2) by simp
  ultimately show "\<not> inherited (planehex m)" using assms(1) by auto
qed

lemma names_ok_fetch_plane:
  assumes "names_ok st" "fetch_plane ns x (sh, st) = Inr (sh', st')"
  shows "names_ok st'"
proof -
  have old: "\<forall>e \<in> set (Planes st). \<not> inherited (fst e)"
    "\<forall>m \<in> set (markers st). \<not> inherited (planehex m)"
    "case Selected st of None \<Rightarrow> True | Some k \<Rightarrow> \<not> inherited k"
    using assms(1) by (simp_all add: names_ok_def)
  have step: "fetch_step ns x (sh, st) = (sh', st')"
    using fetch_plane_Inr[OF assms(2)] by simp
  show ?thesis
  proof (cases "map_of (Planes st) (icao x)")
    case None
    have fresh: "\<not> inherited (icao x)"
    proof
      assume "inherited (icao x)"
      then have "fetch_plane ns x (sh, st) = Inl TypeError" using None by (simp add: fetch_plane_def)
      then show False using assms(2) by simp
    qed
    from None obtain s where s: "fetch_step ns x (sh, st) = (insert (icao x) sh, s)"
      "Planes s = Planes st @ [(icao x, created x (length (markers st)))]"
      "Selected s = Selected st"
      "markers s = markers st @
             [\<lparr>position = (latitude x, longitude x),
               icon = getIconForPlane st (x\<lparr>flight := trim (flight x)\<rparr>),
               title = Some (label x), onMap = True, planehex = icao x\<rparr>]"
      by (rule fetch_step_new) blast
    have eq: "st' = s" using s(1) step by simp
    have k: "\<forall>e \<in> set (Planes s). \<not> inherited (fst e)"
      using old(1) fresh by (simp add: s(2))
    have m: "\<forall>m \<in> set (markers s). \<not> inherited (planehex m)"
      using old(2) fresh by (simp add: s(4))
    have sel: "case Selected s of None \<Rightarrow> True | Some k \<Rightarrow> \<not> inherited k"
      using old(3) by (simp add: s(3))
    show ?thesis unfolding eq names_ok_def using k m sel by simp
  next
    case (Some mp)
    then obtain s where s: "fetch_step ns x (sh, st) = (insert (icao x) sh, s)"
      "Planes s = upd_plane (icao x) (refreshed x) (Planes st)"
      "Selected s = Selected st"
      "length (markers s) = length (markers st)"
      "\<And>i. i \<noteq> marker mp \<Longrightarrow> markers s ! i = markers st ! i"
      "marker mp < length (markers st) \<Longrightarrow>
             markers s ! marker mp = (markers st ! marker mp)
               \<lparr>position := (latitude x, longitude x),
                 icon := getIconForPlane st (x\<lparr>flight := trim (flight x)\<rparr>),
                 title := Some (label x)\<rparr>"
      by (rule fetch_step_known) blast
    have eq: "st' = s" using s(1) step by simp
    have hex: "planehex (markers s ! i) = planehex (markers st ! i)"
      if "i < length (markers st)" for i
    proof (cases "i = marker mp")
      case True
      then show ?thesis using s(6) that by simp
    next
      case False
      then show ?thesis using s(5) by simp
    qed
    have m: "\<forall>m \<in> set (markers s). \<not> inherited (planehex m)"
      using old(2) s(4) hex by (rule names_ok_markers)
    have k: "\<forall>e \<in> set (Planes s). \<not> inherited (fst e)"
    proof
      fix e assume "e \<in> set (Planes s)"
      then have "fst e \<in> set (map fst (Planes s))" by simp
      then have "fst e \<in> set (map fst (Planes st))" by (simp only: s(2) map_fst_upd_plane)
      then obtain e' where "e' \<in> set (Planes st)" "fst e' = fst e" by auto
      then show "\<not> inherited (fst e)" using old(1) by metis
    qed
    have sel: "case Selected s of None \<Rightarrow> True | Some k \<Rightarrow> \<not> inherited k"
      using old(3) by (simp add: s(3))
    show ?thesis unfolding eq names_ok_def using k m sel by simp
  qed
qed

lemma names_ok_fetch_loop:
  assumes "names_ok st" "fetch_loop ns xs (sh, st) = (r, sh', st')"
  shows "names_ok st'"
  using assms
proof (induction xs arbitrary: sh st)
  case Nil
  then show ?case by simp
next
  case (Cons x xs)
  show ?case
  proof (cases "fetch_plane ns x (sh, st)")
    case (Inl e)
    then show ?thesis using Cons.prems by simp
  next
    case (Inr acc1)
    obtain sh1 st1 where acc1: "acc1 = (sh1, st1)" by (cases acc1)
    have "names_ok st1" using Cons.prems(1) Inr unfolding acc1 by (rule names_ok_fetch_plane)
    moreover have "fetch_loop ns xs (sh1, st1) = (r, sh', st')"
      using Cons.prems(2) Inr acc1 by simp
    ultimately show ?thesis by (rule Cons.IH)
  qed
qed

lemma names_ok_fetchData: "names_ok st \<Longrightarrow> names_ok (fetchData ns xs st)"
proof -
  assume ok: "names_ok st"
  obtain r sh st1 where 1: "fetch_loop ns xs ({}, st) = (r, sh, st1)"
    by (cases "fetch_loop ns xs ({}, st)") auto
  have ok1: "names_ok st1" using ok 1 by (rule names_ok_fetch_loop)
  then have old: "\<forall>e \<in> set (Planes st1). \<not> inherited (fst e)"
    "\<forall>m \<in> set (markers st1). \<not> inherited (planehex m)"
    "case Selected st1 of None \<Rightarrow> True | Some k \<Rightarrow> \<not> inherited k"
    by (simp_all add: names_ok_def)
  show ?thesis
  proof (cases r)
    case None
    with 1 have L: "fetch_loop ns xs ({}, st) = (None, sh, st1)" by simp
    have "Selected st1 = Selected st" using fetch_loop_done[OF L] by (rule loop_inv(2))
    then have sel: "Selected (fetchData ns xs st) = Selected st1"
      using fetchData_Selected[of ns xs st] by simp
    have len: "length (markers (fetchData ns xs st)) = length (markers st1)"
      by (rule fetchData_facts(3)[OF L])
    have hex: "planehex (markers (fetchData ns xs st) ! i) = planehex (markers st1 ! i)" for i
      by (rule faded_fields(4)[OF fetchData_facts(6)[OF L]])
    have m: "\<forall>m \<in> set (markers (fetchData ns xs st)). \<not> inherited (planehex m)"
      using old(2) len hex by (rule names_ok_markers)
    have "set (Planes (fetchData ns xs st)) \<subseteq> set (Planes st1)"
      unfolding fetchData_facts(4)[OF L] by (rule filter_is_subset)
    then have k: "\<forall>e \<in> set (Planes (fetchData ns xs st)). \<not> inherited (fst e)"
      using old(1) by blast
    have s: "case Selected (fetchData ns xs st) of None \<Rightarrow> True | Some k \<Rightarrow> \<not> inherited k"
      unfolding sel by (rule old(3))
    show ?thesis unfolding names_ok_def by (intro conjI k m s)
  next
    case (Some e)
    with 1 have "fetchData ns xs st = st1" using fetchData_thrown(2) by simp
    then show ?thesis using ok1 by simp
  qed
qed

lemma names_ok_selectPlane: "names_ok st \<Longrightarrow> names_ok (selectPlane ns hex st)"
proof (cases "map_of (Planes st) hex")
  case None
  assume "names_ok st"
  then show ?thesis using None by (simp add: selectPlane_absent)
next
  case (Some p)
  assume ok: "names_ok st"
  have "(hex, p) \<in> set (Planes st)" using Some by (rule map_of_SomeD)
  then have hex: "\<not> inherited hex" using ok by (auto simp: names_ok_def)
  have same: "planehex (markers (selectPlane ns hex st) ! i) = planehex (markers st ! i)" for i
    by (cases "map_of (Planes st) (prop_key (Selected st))")
       (simp_all add: selectPlane_present[OF Some] marker_methods markers_upd_marker)
  have old: "\<forall>m \<in> set (markers st). \<not> inherited (planehex m)"
    using ok by (simp add: names_ok_def)
  have len: "length (markers (selectPlane ns hex st)) = length (markers st)"
    by (rule selectPlane_frame)
  have m: "\<forall>m \<in> set (markers (selectPlane ns hex st)). \<not> inherited (planehex m)"
    using old len same by (rule names_ok_markers)
  have k: "\<forall>e \<in> set (Planes (selectPlane ns hex st)). \<not> inherited (fst e)"
    using ok by (simp add: names_ok_def selectPlane_frame)
  show ?thesis
    unfolding names_ok_def using m k hex by (simp add: selectPlane_Selected[OF Some])
qed

text \<open>The invariants hold in every state the page can reach.\<close>

lemma reachable_invariants: "reachable ns st \<Longrightarrow> planes_ok st \<and> icons_ok st"
proof (induction rule: reachable.induct)
  case start
  show ?case by (simp add: planes_ok_init icons_ok_init)
next
  case (fetched st aircrafts)
  then show ?case by (simp add: planes_ok_fetchData icons_ok_fetchData)
next
  case (clicked st m)
  then show ?case by (simp add: click_def planes_ok_selectPlane icons_ok_selectPlane)
next
  case (summary st)
  then show ?case
    by (simp add: refreshGeneralInfo_def planes_ok_def icons_ok_def getIconForPlane_def)
qed

lemma reachable_names_ok: "reachable ns st \<Longrightarrow> names_ok st"
proof (induction rule: reachable.induct)
  case start
  show ?case by (rule names_ok_init)
next
  case (fetched st aircrafts)
  then show ?case by (simp add: names_ok_fetchData)
next
  case (clicked st m)
  then show ?case by (simp add: click_def names_ok_selectPlane)
next
  case (summary st)
  then show ?case unfolding refreshGeneralInfo_def names_ok_def by simp
qed

text \<open>
  So a click never reads an inherited property: the name it looks up is the \<open>planehex\<close>
  of a marker that exists.
\<close>

lemma reachable_click_name:
  "reachable ns st \<Longrightarrow> m < length (markers st) \<Longrightarrow> \<not> inherited (planehex (markers st ! m))"
proof -
  assume r: "reachable ns st" and m: "m < length (markers st)"
  have "\<forall>m \<in> set (markers st). \<not> inherited (planehex m)"
    using reachable_names_ok[OF r] by (simp add: names_ok_def)
  moreover have "markers st ! m \<in> set (markers st)" using m by (rule nth_mem)
  ultimately show ?thesis by blast
qed

section \<open>Claims about the appearance of a marker\<close>

text \<open>
  C3 (the code departs from the claim at altitude 0). The claim: the fill colour has red 255
  and green 255, and a blue channel that goes linearly from 255 at altitude 0 down to 0 at
  altitude 40000 and stays 0 above. The code computes \<open>255/40000\<close> first; the double nearest
  to it is a little below 0.006375, its product with 40000 rounds to 254.99999999999997,
  and \<open>parseInt\<close> cuts that to 254. So the icon of an aircraft at altitude 0 is
  \<open>rgb(255,255,254)\<close>, not \<open>rgb(255,255,255)\<close>. (Red and green are 255 at every altitude
  by \<open>fillColor_getIconForPlane\<close>, altitude 20000 gives 127 by \<open>blue_channel_20000\<close> and
  every altitude from 40000 up gives 0 by \<open>blue_channel_ceiling\<close>.)
\<close>

theorem C3_blue_at_altitude_0:
  "fillColor (getIconForPlane init (A1 '''' 0)) = ''rgb(255,255,254)''"
  by (simp add: fillColor_getIconForPlane A1_def blue_channel_0 int_str_def nat_str.simps)

text \<open>
  C9, as the claim states it, fails: an aircraft one foot below sea level gets blue 255,
  which is still in range.
\<close>

theorem C9_counterexample:
  "\<not> 255 < blue_channel (altitude (A1 '''' (- 1)))"
  by (simp add: A1_def blue_channel_minus_1)

text \<open>
  C9, amended. For every aircraft with a negative altitude (not below \<open>-2^53\<close>, so that the
  integer of the document is itself the double the script computes with): from 1 to 156
  feet below sea level the blue channel is 255, still in range; from 157 feet below sea
  level down it is above 255, because the inverted altitude has no upper clamp. The fill
  colour is \<open>rgb(255,255,b)\<close> with that \<open>b\<close>. (Only altitudes from the ceiling of 40000 up
  are clamped: \<open>blue_channel_ceiling\<close>.)
\<close>

theorem C9_blue_above_255:
  assumes "- (2 ^ 53) \<le> altitude p" and "altitude p < 0"
  shows "(if - 156 \<le> altitude p then blue_channel (altitude p) = 255
          else 255 < blue_channel (altitude p)) \<and>
         fillColor (getIconForPlane st p)
           = ''rgb(255,255,'' @ int_str (blue_channel (altitude p)) @ '')''"
proof (cases "- 156 \<le> altitude p")
  case True
  then have "blue_channel (altitude p) = 255"
    using assms(2) by (intro blue_channel_just_below) auto
  then show ?thesis using True by (simp add: fillColor_getIconForPlane)
next
  case False
  then have "256 \<le> blue_channel (altitude p)" by (intro blue_channel_below) auto
  then show ?thesis using False by (simp add: fillColor_getIconForPlane)
qed

theorem C9_blue_above_255_witness:
  "- (2 ^ 53) \<le> altitude (A1 '''' (- 157)) \<and> altitude (A1 '''' (- 157)) < 0 \<and>
   255 < blue_channel (altitude (A1 '''' (- 157))) \<and>
   fillColor (getIconForPlane init (A1 '''' (- 157))) = ''rgb(255,255,256)'' \<and>
   - (2 ^ 53) \<le> altitude (A1 '''' (- 156)) \<and> altitude (A1 '''' (- 156)) < 0 \<and>
   blue_channel (altitude (A1 '''' (- 156))) = 255 \<and>
   fillColor (getIconForPlane init (A1 '''' (- 156))) = ''rgb(255,255,255)''"
  using C9_blue_above_255[of "A1 '''' (- 157)" init] C9_blue_above_255[of "A1 '''' (- 156)" init]
  by (simp add: A1_def blue_channel_minus_157 int_str_def nat_str.simps)

section \<open>The example states\<close>

lemma planes_ok_scenes: "planes_ok scene1" "planes_ok scene2" "planes_ok scene1_sel" "planes_ok scene2_sel"
  by (simp_all add: scene1_def scene2_def scene1_sel_def scene2_sel_def
      planes_ok_fetchData planes_ok_selectPlane planes_ok_init)

lemma icons_ok_scenes: "icons_ok scene1" "icons_ok scene2" "icons_ok scene2_sel"
  by (simp_all add: scene1_def scene2_def scene2_sel_def
      icons_ok_fetchData icons_ok_selectPlane planes_ok_fetchData planes_ok_init icons_ok_init)

lemma Planes_scene1: "Planes scene1 = [(''A1'', created (A1 '''' 0) 0)]"
  by code_simp

lemma Planes_scene2:
  "Planes scene2 = [(''A1'', refreshed (A1 ''UAL123 '' 40000) (created (A1 '''' 0) 0)),
                    (''B2'', created B2 1)]"
  by code_simp

lemma Selected_scene2_sel: "Selected scene2_sel = Some ''A1''"
  unfolding scene2_sel_def by (rule selectPlane_Selected) (simp add: Planes_scene2)

lemma Planes_scene2_sel: "Planes scene2_sel = Planes scene2"
  by (simp add: scene2_sel_def selectPlane_frame)

lemma A1_fields:
  "icao (A1 c a) = ''A1''" "flight (A1 c a) = c" "latitude (A1 c a) = 10"
  "longitude (A1 c a) = 20" "altitude (A1 c a) = a" "speed (A1 c a) = 100" "track (A1 c a) = 90"
  by (simp_all add: A1_def)

lemma B2_fields:
  "icao B2 = ''B2''" "flight B2 = ''UAL123 ''" "latitude B2 = 30" "longitude B2 = 40"
  "altitude B2 = 20000" "speed B2 = 250" "track B2 = 180"
  by (simp_all add: B2_def)

lemma ctor_fields:
  "icao ctor = ''constructor''" "flight ctor = ''UAL123 ''" "altitude ctor = 10000"
  by (simp_all add: ctor_def)

lemma inherited_ctor: "inherited (icao ctor)"
  by (simp add: ctor_def inherited_def inherited_names_def)

lemma not_inherited_examples: "\<not> inherited ''A1''" "\<not> inherited ''B2''" "\<not> inherited ''ZZ''"
  by (simp_all add: inherited_def inherited_names_def)

lemma clean_examples:
  "clean []" "clean [A1 c a]" "clean [B2]" "clean [A1 c a, B2]" "clean [A1 c a, A1 c' a']"
  by (simp_all add: clean_def A1_fields B2_fields not_inherited_examples)

lemma trim_UAL123: "trim ''UAL123 '' = ''UAL123''"
  by (simp add: trim_def is_space_def)

lemma reachable_scene2_sel: "reachable ns_int scene2_sel"
proof -
  have "reachable ns_int scene2"
    unfolding scene2_def scene1_def by (intro reachable.fetched reachable.start)
  moreover have "0 < length (markers scene2)" by code_simp
  ultimately have "reachable ns_int (click ns_int 0 scene2)" by (rule reachable.clicked)
  moreover have "planehex (markers scene2 ! 0) = ''A1''" by code_simp
  ultimately show ?thesis by (simp add: click_def scene2_sel_def)
qed

section \<open>Claims about reconciliation and selection\<close>

text \<open>
  C1, as the claim states it, fails for the callsign: the snapshot gives \<open>A1\<close> the callsign
  \<open>UAL123\<close> followed by a space, the registry holds \<open>UAL123\<close>.
\<close>

theorem C1_counterexample:
  "map_option flight (map_of (Planes scene2) ''A1'')
     \<noteq> Some (flight (latest ''A1'' [A1 ''UAL123 '' 40000, B2]))"
  by (simp add: Planes_scene2 latest_def A1_fields B2_fields trim_UAL123)

text \<open>
  C1, amended. Take two consecutive snapshots in which no identity is a name that every
  object inherits (what the script does with such a name is shown further down, with the
  removal of entries and with the titles of markers). An identity
  \<open>k\<close> that is in both has, after the second one is reconciled, exactly one entry in the
  registry, and the mutable fields of that entry are those of the second snapshot (of its
  last element with identity \<open>k\<close>, should the snapshot repeat the identity): position
  \<open>lat\<close>/\<open>lon\<close>, altitude, speed and track as they are, the callsign with the whitespace
  at its ends removed. The marker of the entry stands at that position.
\<close>

theorem C1_reconcile_updates:
  assumes "planes_ok st" and "clean snapshot1" and "clean snapshot2"
    and "k \<in> icao ` set snapshot1" and "k \<in> icao ` set snapshot2"
  shows "\<exists>p. filter (\<lambda>e. fst e = k)
                (Planes (fetchData ns snapshot2 (fetchData ns snapshot1 st))) = [(k, p)] \<and>
             icao p = k \<and>
             lat p = Some (latitude (latest k snapshot2)) \<and>
             lon p = Some (longitude (latest k snapshot2)) \<and>
             altitude p = altitude (latest k snapshot2) \<and>
             speed p = speed (latest k snapshot2) \<and>
             track p = track (latest k snapshot2) \<and>
             flight p = trim (flight (latest k snapshot2)) \<and>
             position (markers (fetchData ns snapshot2 (fetchData ns snapshot1 st)) ! marker p)
               = (latitude (latest k snapshot2), longitude (latest k snapshot2))"
proof -
  define st1 where "st1 = fetchData ns snapshot1 st"
  define st2 where "st2 = fetchData ns snapshot2 st1"
  have pk1: "planes_ok st1" unfolding st1_def using assms(1) by (rule planes_ok_fetchData)
  have pk2: "planes_ok st2" unfolding st2_def using pk1 by (rule planes_ok_fetchData)
  have in1: "map_of (Planes st1) k \<noteq> None"
    unfolding st1_def using assms(2,4) by (rule fetchData_present)
  from pk1 assms(5) assms(3) obtain p where p: "map_of (Planes st2) k = Some p"
    "altitude p = altitude (latest k snapshot2)" "speed p = speed (latest k snapshot2)"
    "track p = track (latest k snapshot2)" "flight p = trim (flight (latest k snapshot2))"
    "map_of (Planes st1) k \<noteq> None \<Longrightarrow>
       lat p = Some (latitude (latest k snapshot2)) \<and> lon p = Some (longitude (latest k snapshot2))"
    "position (markers st2 ! marker p)
       = (latitude (latest k snapshot2), longitude (latest k snapshot2))"
    unfolding st2_def by (rule fetchData_latest) blast
  have one: "filter (\<lambda>e. fst e = k) (Planes st2) = [(k, p)]"
    using pk2 p(1) by (intro single_entry) (auto simp: planes_ok_def)
  show ?thesis
    using one planes_ok_lookup(1)[OF pk2 p(1)] p(2-5) p(6)[OF in1] p(7)
    unfolding st2_def st1_def by blast
qed

theorem C1_reconcile_updates_witness:
  "planes_ok init \<and> clean [A1 '''' 0] \<and> clean [A1 ''UAL123 '' 40000, B2] \<and>
   ''A1'' \<in> icao ` set [A1 '''' 0] \<and>
   ''A1'' \<in> icao ` set [A1 ''UAL123 '' 40000, B2] \<and>
   (\<exists>p. filter (\<lambda>e. fst e = ''A1'') (Planes scene2) = [(''A1'', p)] \<and>
        icao p = ''A1'' \<and> lat p = Some 10 \<and> lon p = Some 20 \<and> altitude p = 40000 \<and>
        speed p = 100 \<and> track p = 90 \<and> flight p = ''UAL123'' \<and>
        position (markers scene2 ! marker p) = (10, 20))"
proof -
  have i: "''A1'' \<in> icao ` set [A1 '''' 0]" "''A1'' \<in> icao ` set [A1 ''UAL123 '' 40000, B2]"
    by (simp_all add: A1_fields)
  have c: "clean [A1 '''' 0]" "clean [A1 ''UAL123 '' 40000, B2]"
    by (rule clean_examples)+
  have l: "latest ''A1'' [A1 ''UAL123 '' 40000, B2] = A1 ''UAL123 '' 40000"
    by (simp add: latest_def A1_fields B2_fields)
  show ?thesis
    using C1_reconcile_updates[OF planes_ok_init c i, of ns_int] planes_ok_init i c
    by (simp add: scene2_def scene1_def l A1_fields trim_UAL123)
qed

text \<open>
  What the second loop does when the callback gets to it: for a snapshot with no inherited
  name among its identities, an identity of the registry (not an inherited name itself)
  that the snapshot does not have is not in the registry afterwards, and its marker has
  been taken off the map.
\<close>

lemma reconcile_removes:
  assumes "planes_ok st" and "clean snapshot" and "map_of (Planes st) k = Some p"
    and "k \<notin> icao ` set snapshot" and "\<not> inherited k"
  shows "map_of (Planes (fetchData ns snapshot st)) k = None"
    and "\<not> onMap (markers (fetchData ns snapshot st) ! marker p)"
proof -
  from assms(2) obtain sh st1 where L: "fetch_loop ns snapshot ({}, st) = (None, sh, st1)"
    and 1: "fold (fetch_step ns) snapshot ({}, st) = (sh, st1)"
    by (rule fetchData_clean)
  have sh: "sh = icao ` set snapshot" using loop_inv(1)[OF 1] by simp
  have fd: "fetchData ns snapshot st
            = fold (remove_idle sh) (map fst (Planes st1)) (st1\<lparr>NumPlanes := length snapshot\<rparr>)"
    by (simp add: fetchData_def fetchData_outcome_def L Let_def)
  have p1: "map_of (Planes st1) k = Some p"
    using loop_frame(1)[OF assms(1) 1 assms(4)] assms(3) by simp
  have len: "marker p < length (markers st1)"
    using planes_ok_lookup(2)[OF assms(1,3)] loop_inv(4)[OF 1] by simp
  have "k \<in> set (map fst (Planes st1))"
    using map_of_SomeD[OF p1] by force
  then show "\<not> onMap (markers (fetchData ns snapshot st) ! marker p)"
    unfolding fd using assms(4,5) p1 len by (intro remove_loop_off_map) (auto simp: sh)
  show "map_of (Planes (fetchData ns snapshot st)) k = None"
    using assms(4,5) by (simp add: fetchData_facts(5)[OF L])
qed

lemma reconcile_removes_example:
  "map_of (Planes (fetchData ns_int [B2] scene1)) ''A1'' = None"
  "\<not> onMap (markers (fetchData ns_int [B2] scene1) ! 0)"
  using reconcile_removes[of scene1 "[B2]" "''A1''" "created (A1 '''' 0) 0" ns_int]
    planes_ok_scenes(1) clean_examples(3) not_inherited_examples(1)
  by (simp_all add: Planes_scene1 B2_fields)

text \<open>
  C2 (the code departs from the claim when the snapshot carries an inherited name). The
  claim: an identity that is in the registry before a reconciliation and not in the
  snapshot is not in the registry afterwards, and its marker has been taken off the map.
  \<open>Planes\<close> is a plain object used as a dictionary, so \<open>Planes[plane.icao]\<close> of line 68 is
  true for an identity such as \<open>constructor\<close> that the registry does not hold; the update
  branch then calls \<open>getIcon\<close> on \<open>undefined\<close> (line 71) and the callback ends there,
  before the loop of lines 104-109. With \<open>A1\<close> in the registry and a snapshot whose only
  aircraft has the identity \<open>constructor\<close>, \<open>A1\<close> keeps its entry and its marker stays on
  the map. (For snapshots without such a name the claim holds: \<open>reconcile_removes\<close>.)
\<close>

theorem C2_reconcile_aborted:
  "map_of (Planes scene1) ''A1'' = Some (created (A1 '''' 0) 0) \<and>
   ''A1'' \<notin> icao ` set [ctor] \<and>
   fetchData_outcome ns_int [ctor] scene1 = (Some TypeError, scene1) \<and>
   map_of (Planes (fetchData ns_int [ctor] scene1)) ''A1'' = Some (created (A1 '''' 0) 0) \<and>
   onMap (markers (fetchData ns_int [ctor] scene1) ! marker (created (A1 '''' 0) 0))"
proof -
  have t: "fetch_loop ns_int [ctor] ({}, scene1) = (Some TypeError, {}, scene1)"
    by (simp add: fetch_plane_throws[OF _ inherited_ctor] Planes_scene1 ctor_fields)
  have m: "onMap (markers scene1 ! marker (created (A1 '''' 0) 0))" by code_simp
  show ?thesis
    using m by (simp add: fetchData_thrown[OF t] Planes_scene1 ctor_fields)
qed

text \<open>
  C4. Select \<open>a\<close>, then another identity \<open>b\<close>, both in the registry: afterwards the icon of
  the marker of \<open>a\<close> has stroke weight 1, that of \<open>b\<close> has stroke weight 2, and \<open>b\<close> is the
  selected identity (\<open>Selected\<close> holds one identity or none at any time, by its type). When
  the icons were up to date before, \<open>b\<close> is the only entry shown as selected.
\<close>

theorem C4_select_A_then_B:
  assumes "planes_ok st" and "map_of (Planes st) a = Some pa" and "map_of (Planes st) b = Some pb"
    and "a \<noteq> b"
  shows "Selected (selectPlane ns a st) = Some a \<and>
         Selected (selectPlane ns b (selectPlane ns a st)) = Some b \<and>
         strokeWeight (icon (markers (selectPlane ns b (selectPlane ns a st)) ! marker pa)) = 1 \<and>
         strokeWeight (icon (markers (selectPlane ns b (selectPlane ns a st)) ! marker pb)) = 2 \<and>
         (icons_ok st \<longrightarrow>
            (\<forall>e \<in> set (Planes (selectPlane ns b (selectPlane ns a st))).
               strokeWeight (icon (markers (selectPlane ns b (selectPlane ns a st)) ! marker (snd e)))
                 = (if fst e = b then 2 else 1)))"
proof -
  define st1 where "st1 = selectPlane ns a st"
  define st2 where "st2 = selectPlane ns b st1"
  have pk1: "planes_ok st1" unfolding st1_def using assms(1) by (rule planes_ok_selectPlane)
  have pk2: "planes_ok st2" unfolding st2_def using pk1 by (rule planes_ok_selectPlane)
  have P1: "Planes st1 = Planes st" by (simp add: st1_def selectPlane_frame)
  have P2: "Planes st2 = Planes st" by (simp add: st2_def selectPlane_frame P1)
  have s1: "Selected st1 = Some a" unfolding st1_def using assms(2) by (rule selectPlane_Selected)
  have pb1: "map_of (Planes st1) b = Some pb" using assms(3) by (simp add: P1)
  have pa1: "map_of (Planes st1) (prop_key (Selected st1)) = Some pa"
    using assms(2) by (simp add: P1 s1 prop_key_def)
  have s2: "Selected st2 = Some b" unfolding st2_def using pb1 by (rule selectPlane_Selected)
  have la: "marker pa < length (markers st1)" using planes_ok_lookup(2)[OF pk1] assms(2) P1 by simp
  have lb: "marker pb < length (markers st1)" using planes_ok_lookup(2)[OF pk1] assms(3) P1 by simp
  have ne: "marker pa \<noteq> marker pb"
    using planes_ok_marker_inj[OF assms(1) planes_ok_lookup(3)[OF assms(1,2)] planes_ok_lookup(3)[OF assms(1,3)]] assms(4)
    by auto
  have "icon (markers st2 ! marker pa) = getIconForPlane st2 pa"
    unfolding st2_def using la pb1 pa1 ne by (rule selectPlane_icon_old)
  then have A: "strokeWeight (icon (markers st2 ! marker pa)) = 1"
    using planes_ok_lookup(1)[OF assms(1,2)] assms(4) by (simp add: getIconForPlane_def s2)
  have "icon (markers st2 ! marker pb) = getIconForPlane st2 pb"
    unfolding st2_def using lb pb1 by (rule selectPlane_icon_new)
  then have B: "strokeWeight (icon (markers st2 ! marker pb)) = 2"
    using planes_ok_lookup(1)[OF assms(1,3)] by (simp add: getIconForPlane_def s2)
  have all: "\<forall>e \<in> set (Planes st2).
               strokeWeight (icon (markers st2 ! marker (snd e))) = (if fst e = b then 2 else 1)"
    if "icons_ok st"
  proof -
    have "icons_ok st1" unfolding st1_def using assms(1) that by (rule icons_ok_selectPlane)
    then have ok2: "icons_ok st2" unfolding st2_def using pk1 by (intro icons_ok_selectPlane)
    show ?thesis
    proof
      fix e assume e: "e \<in> set (Planes st2)"
      then have "icao (snd e) = fst e" using pk2 by (simp add: planes_ok_def)
      moreover have "icon (markers st2 ! marker (snd e)) = getIconForPlane st2 (snd e)"
        using ok2 e by (simp add: icons_ok_def)
      ultimately show "strokeWeight (icon (markers st2 ! marker (snd e))) = (if fst e = b then 2 else 1)"
        by (auto simp: getIconForPlane_def s2)
    qed
  qed
  show ?thesis using s1 s2 A B all unfolding st2_def st1_def by blast
qed

theorem C4_select_A_then_B_witness:
  "planes_ok scene2 \<and> icons_ok scene2 \<and>
   map_of (Planes scene2) ''A1'' = Some (refreshed (A1 ''UAL123 '' 40000) (created (A1 '''' 0) 0)) \<and>
   map_of (Planes scene2) ''B2'' = Some (created B2 1) \<and> ''A1'' \<noteq> ''B2'' \<and>
   Selected (selectPlane ns_int ''A1'' scene2) = Some ''A1'' \<and>
   Selected (selectPlane ns_int ''B2'' (selectPlane ns_int ''A1'' scene2)) = Some ''B2'' \<and>
   strokeWeight (icon (markers (selectPlane ns_int ''B2'' (selectPlane ns_int ''A1'' scene2)) ! 0)) = 1 \<and>
   strokeWeight (icon (markers (selectPlane ns_int ''B2'' (selectPlane ns_int ''A1'' scene2)) ! 1)) = 2 \<and>
   map (\<lambda>e. (fst e,
        strokeWeight (icon (markers (selectPlane ns_int ''B2'' (selectPlane ns_int ''A1'' scene2))
          ! marker (snd e)))))
     (Planes (selectPlane ns_int ''B2'' (selectPlane ns_int ''A1'' scene2)))
     = [(''A1'', 1), (''B2'', 2)]"
  using C4_select_A_then_B[of scene2 "''A1''"
      "refreshed (A1 ''UAL123 '' 40000) (created (A1 '''' 0) 0)" "''B2''" "created B2 1" ns_int]
    planes_ok_scenes(2) icons_ok_scenes(2)
  by (simp add: Planes_scene2 selectPlane_frame)

text \<open>
  C5 (the code departs from the claim for an entry that was never updated). The claim: when
  the selection resolves to an entry, the detail panel shows its identity, its callsign
  when not empty, its altitude, its speed and its coordinates. The panel prints \<open>p.lat\<close> and
  \<open>p.lon\<close>, which only the update branch assigns (lines 77-78); the branch that creates an
  entry stores the JSON object, whose coordinates are named \<open>latitude\<close> and \<open>longitude\<close>.
  So for the panel of an aircraft selected after its first snapshot the coordinates read
  \<open>undefined, undefined\<close>. (What the panel shows in general is
  \<open>refreshSelectedInfo_resolved\<close>; with no entry for the selection nothing is written, by
  \<open>refreshSelectedInfo_unresolved\<close>.)
\<close>

theorem C5_detail_of_new_entry:
  "selinfo (selectPlane ns_int ''A1'' scene1)
     = ''ICAO: A1<br>Altitude: 0 feet<br>Speed: 100 knots<br>Coordinates: undefined, undefined<br>''"
  by code_simp

text \<open>
  C6, as the claim states it, fails: with \<open>A1\<close> selected, a reconciliation whose snapshot
  does not contain \<open>A1\<close> deletes the entry and leaves \<open>Selected\<close> as it is.
\<close>

theorem C6_counterexample:
  "sel_ok scene1_sel \<and>
   Selected (fetchData ns_int [B2] scene1_sel) = Some ''A1'' \<and>
   map_of (Planes (fetchData ns_int [B2] scene1_sel)) ''A1'' = None \<and>
   \<not> sel_ok (fetchData ns_int [B2] scene1_sel)"
  by code_simp

text \<open>
  C6, amended. The selection holds one identity or none. That a set selection names a key of
  the registry is preserved by a click on any marker, by the two panel functions, and by
  every reconciliation whose snapshot contains the selected identity; a reconciliation
  never changes the selection, so one that removes the selected entity leaves the selection
  naming the removed identity.
\<close>

theorem C6_selection:
  assumes "sel_ok st"
  shows "sel_ok (selectPlane ns hex st) \<and>
         sel_ok (refreshSelectedInfo ns st) \<and>
         sel_ok (refreshGeneralInfo st) \<and>
         Selected (fetchData ns snapshot st) = Selected st \<and>
         ((\<forall>k. Selected st = Some k \<longrightarrow> k \<in> icao ` set snapshot)
            \<longrightarrow> sel_ok (fetchData ns snapshot st))"
proof -
  have s: "Selected (fetchData ns snapshot st) = Selected st"
    by (rule fetchData_Selected)
  have "sel_ok (fetchData ns snapshot st)"
    if a: "\<forall>k. Selected st = Some k \<longrightarrow> k \<in> icao ` set snapshot"
  proof (cases "Selected st")
    case None
    then show ?thesis by (simp add: sel_ok_def s)
  next
    case (Some k)
    then have "map_of (Planes st) k \<noteq> None" using assms by (simp add: sel_ok_def)
    moreover have "k \<in> icao ` set snapshot \<or> inherited k" using a Some by simp
    ultimately have "map_of (Planes (fetchData ns snapshot st)) k \<noteq> None"
      by (rule fetchData_keeps)
    then show ?thesis using Some by (simp add: sel_ok_def s)
  qed
  moreover have "sel_ok (refreshSelectedInfo ns st)" "sel_ok (refreshGeneralInfo st)"
    using assms by (simp_all add: sel_ok_def refreshGeneralInfo_def split: option.splits)
  ultimately show ?thesis using sel_ok_selectPlane[OF assms] s by blast
qed

theorem C6_selection_witness:
  "sel_ok scene2_sel \<and>
   Selected scene2_sel = Some ''A1'' \<and> ''A1'' \<in> icao ` set [A1 '''' 0] \<and>
   sel_ok (selectPlane ns_int ''B2'' scene2_sel) \<and>
   sel_ok (refreshSelectedInfo ns_int scene2_sel) \<and>
   sel_ok (refreshGeneralInfo scene2_sel) \<and>
   Selected (fetchData ns_int [A1 '''' 0] scene2_sel) = Selected scene2_sel \<and>
   sel_ok (fetchData ns_int [A1 '''' 0] scene2_sel)"
proof -
  have ok: "sel_ok scene2_sel"
    by (simp add: sel_ok_def Selected_scene2_sel Planes_scene2_sel Planes_scene2)
  have sub: "''A1'' \<in> icao ` set [A1 '''' 0]"
    by (simp add: A1_fields)
  show ?thesis
    using C6_selection[OF ok, of ns_int "''B2''" "[A1 '''' 0]"] ok sub
    by (simp add: Selected_scene2_sel)
qed

text \<open>
  The title of a marker. An iteration that does not throw sets the title of the marker of
  its aircraft to the identity when the trimmed callsign is empty, and otherwise to the
  trimmed callsign, a space, and the identity in parentheses; for a snapshot with no
  inherited name among its identities that is the title the marker has after the
  reconciliation (for the last aircraft with its identity, should the snapshot repeat one).
\<close>

lemma marker_label_iteration:
  assumes "planes_ok st" and "fetch_plane ns x (stillhere, st) = Inr (sh', st')"
  shows "\<exists>p. map_of (Planes st') (icao x) = Some p \<and>
             title (markers st' ! marker p)
               = Some (if trim (flight x) = [] then icao x
                       else trim (flight x) @ '' ('' @ icao x @ '')'')"
proof -
  have 1: "fetch_step ns x (stillhere, st) = (sh', st')"
    using fetch_plane_Inr[OF assms(2)] by simp
  from assms(1) 1 obtain p where "map_of (Planes st') (icao x) = Some p"
    "title (markers st' ! marker p) = Some (label x)"
    by (rule fetch_step_effect) blast
  then show ?thesis by (auto simp: label_def)
qed

lemma marker_label:
  assumes "planes_ok st" and "clean snapshot"
    and "x \<in> set snapshot" and "latest (icao x) snapshot = x"
  shows "\<exists>p. map_of (Planes (fetchData ns snapshot st)) (icao x) = Some p \<and>
             title (markers (fetchData ns snapshot st) ! marker p)
               = Some (if trim (flight x) = [] then icao x
                       else trim (flight x) @ '' ('' @ icao x @ '')'')"
proof -
  have "icao x \<in> icao ` set snapshot" using assms(3) by simp
  with assms(1) obtain p where "map_of (Planes (fetchData ns snapshot st)) (icao x) = Some p"
    "title (markers (fetchData ns snapshot st) ! marker p)
       = Some (label (latest (icao x) snapshot))"
    using assms(2) by (rule fetchData_latest) blast
  then show ?thesis using assms(4) by (auto simp: label_def)
qed

lemma marker_label_example:
  "\<exists>p. map_of (Planes (fetchData ns_int [A1 '''' 0, B2] init)) ''B2'' = Some p \<and>
       title (markers (fetchData ns_int [A1 '''' 0, B2] init) ! marker p) = Some ''UAL123 (B2)''"
proof -
  have l: "latest (icao B2) [A1 '''' 0, B2] = B2"
    by (simp add: latest_def A1_fields B2_fields)
  show ?thesis
    using marker_label[OF planes_ok_init clean_examples(4) _ l, of ns_int]
    by (simp add: B2_fields trim_UAL123)
qed

text \<open>
  C7 (the code departs from the claim for an aircraft whose identity is an inherited name).
  The claim: for every aircraft of the snapshot the title of the marker is the identity
  when the trimmed callsign is empty, and otherwise the trimmed callsign, a space, and the
  identity in parentheses; the callsign \<open>UAL123\<close> with a trailing space and the identity
  \<open>X\<close> give \<open>UAL123 (X)\<close>. For the identity \<open>constructor\<close> and that callsign, as the only
  aircraft of the first snapshot, \<open>Planes[plane.icao]\<close> of line 68 is true though the
  registry is empty (\<open>Planes\<close> is a plain object used as a dictionary), line 71 calls
  \<open>getIcon\<close> on \<open>undefined\<close>, and the callback ends before lines 96-99: no marker exists
  and no title is set. (For the other identities the claim holds:
  \<open>marker_label_iteration\<close>, \<open>marker_label\<close>.)
\<close>

theorem C7_no_label:
  "ctor \<in> set [ctor] \<and> trim (flight ctor) = ''UAL123'' \<and>
   fetch_plane ns_int ctor ({}, init) = Inl TypeError \<and>
   fetchData_outcome ns_int [ctor] init = (Some TypeError, init) \<and>
   markers (fetchData ns_int [ctor] init) = [] \<and>
   map_of (Planes (fetchData ns_int [ctor] init)) (icao ctor) = None"
proof -
  have p: "map_of (Planes init) (icao ctor) = None" by (simp add: init_def)
  have f: "fetch_plane ns_int ctor ({}, init) = Inl TypeError"
    using p inherited_ctor by (rule fetch_plane_throws)
  then have t: "fetch_loop ns_int [ctor] ({}, init) = (Some TypeError, {}, init)" by simp
  have m: "markers init = []" by (simp add: init_def)
  show ?thesis
    using p f m by (simp add: fetchData_thrown[OF t] ctor_fields trim_UAL123)
qed

text \<open>
  C8. A click for an identity that is not in the registry changes nothing: the state after
  \<open>selectPlane\<close> is the state before it (selection, registry and every marker).
\<close>

theorem C8_select_unknown:
  assumes "map_of (Planes st) hex = None"
  shows "selectPlane ns hex st = st"
  using assms by (simp add: selectPlane_def)

theorem C8_select_unknown_witness:
  "map_of (Planes scene1) ''B2'' = None \<and> selectPlane ns_int ''B2'' scene1 = scene1"
  using C8_select_unknown[of scene1 "''B2''" ns_int] by (simp add: Planes_scene1)

text \<open>
  C10. Selecting the identity that is already selected (and in the registry) leaves the
  selection, the registry and every marker, icons included, as they were.
\<close>

theorem C10_reselect:
  assumes "planes_ok st" and "icons_ok st"
    and "Selected st = Some hex" and "map_of (Planes st) hex = Some p"
  shows "Selected (selectPlane ns hex st) = Selected st \<and>
         markers (selectPlane ns hex st) = markers st \<and>
         Planes (selectPlane ns hex st) = Planes st"
proof -
  have "icon (markers st ! marker p) = getIconForPlane st p"
    using assms(2) planes_ok_lookup(3)[OF assms(1,4)] by (force simp: icons_ok_def)
  then have same: "(markers st)[marker p := (markers st ! marker p)\<lparr>icon := getIconForPlane st p\<rparr>]
                   = markers st"
    by (metis list_update_id marker_obj.surjective marker_obj.update_convs(2)
        marker_obj.select_convs(2))
  have s: "st\<lparr>Selected := Some hex\<rparr> = st" using assms(3) by simp
  have "setIcon (marker p) (getIconForPlane st p) st = st"
    using same by (simp add: marker_methods upd_marker_def)
  then show ?thesis
    using assms(3,4) by (simp add: selectPlane_present[OF assms(4)] s prop_key_def)
qed

theorem C10_reselect_witness:
  "planes_ok scene2_sel \<and> icons_ok scene2_sel \<and> Selected scene2_sel = Some ''A1'' \<and>
   map_of (Planes scene2_sel) ''A1''
     = Some (refreshed (A1 ''UAL123 '' 40000) (created (A1 '''' 0) 0)) \<and>
   Selected (selectPlane ns_int ''A1'' scene2_sel) = Selected scene2_sel \<and>
   markers (selectPlane ns_int ''A1'' scene2_sel) = markers scene2_sel \<and>
   Planes (selectPlane ns_int ''A1'' scene2_sel) = Planes scene2_sel"
  using C10_reselect[of scene2_sel "''A1''"
      "refreshed (A1 ''UAL123 '' 40000) (created (A1 '''' 0) 0)" ns_int]
    planes_ok_scenes(4) icons_ok_scenes(3) Selected_scene2_sel
  by (simp add: Planes_scene2_sel Planes_scene2)

end
